theory Spec2Isabelle
  imports Main "HOL-Library.Word"
begin

section \<open>Data model (nfsstats.go, lines 12--111)\<close>

type_synonym uint64 = "64 word"

record ByteCounters =
  NormalReadBytes :: uint64
  NormalWriteBytes :: uint64
  DirectReadBytes :: uint64
  DirectWriteBytes :: uint64
  ServerReadBytes :: uint64
  ServerWriteBytes :: uint64
  ReadPages :: uint64
  WritePages :: uint64

record EventCounters =
  InodeRevalidate :: uint64
  DentryRevalidate :: uint64
  DataInvalidate :: uint64
  AttrInvalidate :: uint64
  VFSOpen :: uint64
  VFSLookup :: uint64
  VFSAccess :: uint64
  VFSUpdatePage :: uint64
  VFSReadPage :: uint64
  VFSReadPages :: uint64
  VFSWritePage :: uint64
  VFSWritePages :: uint64
  VFSGetDents :: uint64
  VFSSetAttr :: uint64
  VFSFlush :: uint64
  VFSSync :: uint64
  VFSLock :: uint64
  VFSRelease :: uint64
  CongestionWait :: uint64
  SetAttrTrunc :: uint64
  ExtendWrite :: uint64
  SillyRename :: uint64
  ShortRead :: uint64
  ShortWrite :: uint64
  Delay :: uint64
  PNFSRead :: uint64
  PNFSWrite :: uint64

record OperationCounters =
  Requests :: uint64
  Transmissions :: uint64
  Timeouts :: uint64
  BytesSent :: uint64
  BytesReceived :: uint64
  TotalQueueTime :: uint64
  TotalResponseTime :: uint64
  TotalExecutionTime :: uint64

record TransportCounters =
  SourcePort :: uint64
  BindCount :: uint64
  ConnectCount :: uint64
  ConnectTime :: uint64
  IdleTime :: uint64
  RPCSends :: uint64
  RPCReceives :: uint64
  BadTransactionIDs :: uint64
  RequestUtilization :: uint64
  BacklogUtilization :: uint64
  MaxSlotsUsed :: uint64
  SendingQueueUtilization :: uint64
  PendingQueueUtilization :: uint64

text \<open>
  \<^verbatim>\<open>Statistics.Operation\<close> is a Go map. It is kept as an association list with at most one
  entry per key, \<^verbatim>\<open>None\<close> being the nil map of a zero-value \<^verbatim>\<open>Statistics\<close>; an
  assignment \<^verbatim>\<open>m[k] = v\<close> replaces the entry of \<^verbatim>\<open>k\<close> or adds one.
\<close>

record Statistics =
  Age :: uint64
  Byte :: ByteCounters
  Event :: EventCounters
  Operation :: "(string \<times> OperationCounters) list option"
  Transport :: TransportCounters

text \<open>\<^verbatim>\<open>NFSMount.Statistics\<close> is a pointer: \<^verbatim>\<open>None\<close> is nil.\<close>

record NFSMount =
  Device :: string
  Mountpoint :: string
  Statistics :: "Statistics option"
  Version :: uint64

text \<open>The run-time panics the parser can raise.\<close>

datatype panic = IndexOutOfRange | NilMapAssignment

section \<open>Library functions used by the parser\<close>

subsection \<open>utf8.DecodeRuneInString and unicode.IsSpace\<close>

text \<open>
  A Go string is a sequence of bytes, here a list of \<^typ>\<open>char\<close>. \<^verbatim>\<open>strings.Fields\<close>
  reads it as UTF-8 when it holds a byte of \<^verbatim>\<open>0x80\<close> or more, one rune at a time. The
  decoder is that of package \<^verbatim>\<open>utf8\<close>: the table \<^verbatim>\<open>first\<close> gives for the first byte the
  size of the encoding and the range allowed for the second byte (\<^verbatim>\<open>as\<close> is \<^verbatim>\<open>0xF0\<close>, an
  ASCII byte; \<^verbatim>\<open>xx\<close> is \<^verbatim>\<open>0xF1\<close>, an invalid byte); a byte that starts no valid encoding
  is the rune \<^verbatim>\<open>RuneError\<close> of size 1. Bytes and runes are integers here.
\<close>

definition RuneError :: int where
  "RuneError = 0xFFFD"

definition first :: "int \<Rightarrow> int" where
  "first b =
     (if b < 0x80 then 0xF0
      else if b < 0xC2 then 0xF1
      else if b < 0xE0 then 0x02
      else if b = 0xE0 then 0x13
      else if b < 0xED then 0x03
      else if b = 0xED then 0x23
      else if b < 0xF0 then 0x03
      else if b = 0xF0 then 0x34
      else if b < 0xF4 then 0x04
      else if b = 0xF4 then 0x44
      else 0xF1)"

definition acceptRanges :: "int \<Rightarrow> int \<times> int" where
  "acceptRanges i =
     (if i = 0 then (0x80, 0xBF)
      else if i = 1 then (0xA0, 0xBF)
      else if i = 2 then (0x80, 0x9F)
      else if i = 3 then (0x90, 0xBF)
      else (0x80, 0x8F))"

definition DecodeRuneInString :: "string \<Rightarrow> int \<times> nat" where
  "DecodeRuneInString s =
     (if length s < 1 then (RuneError, 0)
      else
        let s0 = of_char (s ! 0); x = first s0 in
        if x \<ge> 0xF0 then (if x = 0xF0 then s0 else RuneError, 1)
        else
          let sz = nat (x mod 8); (lo, hi) = acceptRanges (x div 16) in
          if length s < sz then (RuneError, 1)
          else
            let s1 = of_char (s ! 1) in
            if s1 < lo \<or> hi < s1 then (RuneError, 1)
            else if sz \<le> 2 then ((s0 mod 32) * 64 + s1 mod 64, 2)
            else
              let s2 = of_char (s ! 2) in
              if s2 < 0x80 \<or> 0xBF < s2 then (RuneError, 1)
              else if sz \<le> 3 then ((s0 mod 16) * 4096 + (s1 mod 64) * 64 + s2 mod 64, 3)
              else
                let s3 = of_char (s ! 3) in
                if s3 < 0x80 \<or> 0xBF < s3 then (RuneError, 1)
                else ((s0 mod 8) * 262144 + (s1 mod 64) * 4096 + (s2 mod 64) * 64
                        + s3 mod 64, 4))"

text \<open>
  \<^verbatim>\<open>unicode.IsSpace\<close>: in Latin-1 the six ASCII characters tab, line feed, vertical tab,
  form feed, carriage return and space, with U+0085 and U+00A0; beyond Latin-1 the
  ranges of the table \<^verbatim>\<open>White_Space\<close>.
\<close>

definition IsSpace :: "int \<Rightarrow> bool" where
  "IsSpace r =
     (if r \<le> 0xFF
      then r = 0x09 \<or> r = 0x0A \<or> r = 0x0B \<or> r = 0x0C \<or> r = 0x0D \<or> r = 0x20
           \<or> r = 0x85 \<or> r = 0xA0
      else r = 0x1680 \<or> (0x2000 \<le> r \<and> r \<le> 0x200A) \<or> r = 0x2028 \<or> r = 0x2029
           \<or> r = 0x202F \<or> r = 0x205F \<or> r = 0x3000)"

subsection \<open>strings.Fields and strings.TrimSuffix\<close>

text \<open>
  \<^verbatim>\<open>strings.FieldsFunc(s, unicode.IsSpace)\<close>: the loop over the runes of \<^verbatim>\<open>s\<close>, with the
  field begun and not yet ended as second argument. A field ends at a rune that is
  white space, or with the string; no field is empty.
\<close>

lemma DecodeRuneInString_size: "s \<noteq> [] \<Longrightarrow> 0 < snd (DecodeRuneInString s)"
  by (auto simp: DecodeRuneInString_def Let_def split: prod.splits)

function FieldsFunc :: "string \<Rightarrow> string \<Rightarrow> string list" where
  "FieldsFunc s field =
     (if s = [] then (if field = [] then [] else [field])
      else
        let (rune, size) = DecodeRuneInString s in
        if IsSpace rune
        then (if field = [] then FieldsFunc (drop size s) []
              else field # FieldsFunc (drop size s) [])
        else FieldsFunc (drop size s) (field @ take size s))"
  by pat_completeness auto
termination
proof (relation "measure (\<lambda>(s, field). length s)", goal_cases)
  case 1
  show ?case by simp
next
  case (2 s field x rune size)
  then show ?case
    using DecodeRuneInString_size [of s] by (cases "DecodeRuneInString s") auto
next
  case (3 s field x rune size)
  then show ?case
    using DecodeRuneInString_size [of s] by (cases "DecodeRuneInString s") auto
next
  case (4 s field x rune size)
  then show ?case
    using DecodeRuneInString_size [of s] by (cases "DecodeRuneInString s") auto
qed

declare FieldsFunc.simps [simp del]

text \<open>
  The fast path of \<^verbatim>\<open>strings.Fields\<close> for a string of ASCII bytes only: white space is
  one of the six bytes of the table \<^verbatim>\<open>asciiSpace\<close>.
\<close>

definition asciiSpace :: "char \<Rightarrow> bool" where
  "asciiSpace c = (c = CHR 0x09 \<or> c = CHR 0x0A \<or> c = CHR 0x0B \<or> c = CHR 0x0C
                    \<or> c = CHR 0x0D \<or> c = CHR 0x20)"

primrec splitFields :: "string \<Rightarrow> string \<Rightarrow> string list" where
  "splitFields [] field = (if field = [] then [] else [field])"
| "splitFields (c # cs) field =
     (if asciiSpace c then (if field = [] then splitFields cs [] else field # splitFields cs [])
      else splitFields cs (field @ [c]))"

definition Fields :: "string \<Rightarrow> string list" where
  "Fields s =
     (if list_all (\<lambda>c. (of_char c :: int) < 0x80) s then splitFields s []
      else FieldsFunc s [])"

definition HasSuffix :: "string \<Rightarrow> string \<Rightarrow> bool" where
  "HasSuffix s suffix =
     (length suffix \<le> length s \<and> drop (length s - length suffix) s = suffix)"

definition TrimSuffix :: "string \<Rightarrow> string \<Rightarrow> string" where
  "TrimSuffix s suffix =
     (if HasSuffix s suffix then take (length s - length suffix) s else s)"

subsection \<open>strconv.ParseUint(s, 10, 64)\<close>

text \<open>
  The loop of \<^verbatim>\<open>strconv.ParseUint\<close> for base 10 and bit size 64. A byte that is not a
  decimal digit is a syntax error with value 0; when the next digit would take the value
  past \<^verbatim>\<open>1<<64 - 1\<close> the function returns at once with a range error and the value
  \<^verbatim>\<open>1<<64 - 1\<close> (\<^verbatim>\<open>maxVal\<close>). The empty string is a syntax error. For base 10 a
  sign, a letter or an underscore is no digit.
\<close>

datatype NumError = ErrSyntax | ErrRange

definition isDigit :: "char \<Rightarrow> bool" where
  "isDigit c = ((of_char (CHR ''0'') :: nat) \<le> of_char c \<and> (of_char c :: nat) \<le> of_char (CHR ''9''))"

definition digitVal :: "char \<Rightarrow> uint64" where
  "digitVal c = of_nat ((of_char c :: nat) - of_char (CHR ''0''))"

definition maxUint64 :: uint64 where
  "maxUint64 = 18446744073709551615"

definition cutoff :: uint64 where
  "cutoff = maxUint64 div 10 + 1"

primrec parseUintLoop :: "string \<Rightarrow> uint64 \<Rightarrow> uint64 \<times> NumError option" where
  "parseUintLoop [] n = (n, None)"
| "parseUintLoop (c # cs) n =
     (if \<not> isDigit c then (0, Some ErrSyntax)
      else if n \<ge> cutoff then (maxUint64, Some ErrRange)
      else let n' = n * 10; n1 = n' + digitVal c
           in if n1 < n' \<or> n1 > maxUint64 then (maxUint64, Some ErrRange)
              else parseUintLoop cs n1)"

definition ParseUint :: "string \<Rightarrow> uint64 \<times> NumError option" where
  "ParseUint s = (if s = [] then (0, Some ErrSyntax) else parseUintLoop s 0)"

subsection \<open>bufio.Scanner\<close>

text \<open>
  The reader is given by what it supplies: \<open>content\<close>, the bytes it supplies cut at the
  line feeds (one element for each line, without its line feed; the bytes after the last
  line feed are the last element when there are any), and \<open>ending\<close>, how it ends:
  \<^verbatim>\<open>None\<close> for \<^verbatim>\<open>io.EOF\<close>, \<^verbatim>\<open>Some e\<close> for an error (a read error, or a reader that the
  scanner gives up on).

  A \<^verbatim>\<open>bufio.Scanner\<close> reads ahead, so the reader may report its end while complete
  lines are still buffered: these lines are still delivered by later calls of \<^verbatim>\<open>Scan\<close>,
  while \<^verbatim>\<open>Err\<close> already returns the error. \<open>cleanLines\<close> is the number of lines
  delivered before the scanner has met the reader's end. With \<open>cleanLines\<close> at least
  the number of lines, the end is met by the call of \<^verbatim>\<open>Scan\<close> that returns false. Not
  every value of \<open>cleanLines\<close> belongs to a reader; the theorems hold for all of them.
\<close>

record 'e Reader =
  content :: "string list"
  cleanLines :: nat
  ending :: "'e option"

text \<open>
  The errors of a scanner: \<^verbatim>\<open>bufio.ErrTooLong\<close>, and the error of the reader.
\<close>

datatype 'e scanError = ErrTooLong | ReaderError 'e

text \<open>
  The state of the scanner: \<open>pending\<close>, the lines it has not delivered; \<open>clean\<close>, how
  many of them it delivers before it has met the reader's end; \<open>failure\<close>, the reader's
  end; \<open>ended\<close>, whether its field \<^verbatim>\<open>err\<close> is set (to \<^verbatim>\<open>io.EOF\<close> or to an error);
  \<open>tooLong\<close>, whether that error is \<^verbatim>\<open>ErrTooLong\<close>.
\<close>

record 'e Scanner =
  pending :: "string list"
  clean :: nat
  failure :: "'e option"
  ended :: bool
  tooLong :: bool

definition NewScanner :: "'e Reader \<Rightarrow> 'e Scanner" where
  "NewScanner reader =
     \<lparr>pending = content reader, clean = cleanLines reader, failure = ending reader,
      ended = False, tooLong = False\<rparr>"

text \<open>
  The buffer of the scanner grows to \<^verbatim>\<open>MaxScanTokenSize\<close> bytes and no further. A line
  is found when its line feed is in the buffer, so a line of \<^verbatim>\<open>MaxScanTokenSize\<close> bytes or
  more is never found: the buffer is full first, and \<^verbatim>\<open>Scan\<close> sets \<^verbatim>\<open>ErrTooLong\<close> and
  returns false. Once the reader's end is met nothing more is read, and what the buffer
  holds is delivered, also a last line with no line feed: such a line can have
  \<^verbatim>\<open>MaxScanTokenSize\<close> bytes, when the reader reports its end with the line's last bytes
  (\<open>clean\<close> is 0 then); it cannot have more.
\<close>

definition MaxScanTokenSize :: int where
  "MaxScanTokenSize = 64 * 1024"

definition tokenTooLong :: "'e Scanner \<Rightarrow> string \<Rightarrow> bool" where
  "tokenTooLong scanner line =
     (\<not> ended scanner
      \<and> (MaxScanTokenSize < int (length line)
         \<or> (MaxScanTokenSize = int (length line) \<and> 0 < clean scanner)))"

text \<open>\<^verbatim>\<open>dropCR\<close> of \<^verbatim>\<open>bufio.ScanLines\<close>: a line is delivered without a final carriage return.\<close>

definition dropCR :: "string \<Rightarrow> string" where
  "dropCR data = (if data \<noteq> [] \<and> last data = CHR 0x0D then butlast data else data)"

text \<open>
  \<^verbatim>\<open>Scan\<close> with \<^verbatim>\<open>Bytes\<close>: the next line, or \<^verbatim>\<open>None\<close> when \<^verbatim>\<open>Scan\<close> returns false. After
  \<^verbatim>\<open>ErrTooLong\<close> the buffer still holds the first \<^verbatim>\<open>MaxScanTokenSize\<close> bytes of the line:
  a further call of \<^verbatim>\<open>Scan\<close> delivers them as a last line, and the calls after it return
  false.
\<close>

definition Scan :: "'e Scanner \<Rightarrow> string option \<times> 'e Scanner" where
  "Scan scanner =
     (case pending scanner of
        [] \<Rightarrow> (None, scanner\<lparr>ended := True\<rparr>)
      | line # rest \<Rightarrow>
          if tokenTooLong scanner line
          then (None, scanner\<lparr>pending := [take (nat MaxScanTokenSize) line], ended := True,
                               tooLong := True\<rparr>)
          else (Some (dropCR line),
                scanner\<lparr>pending := rest, clean := clean scanner - 1,
                         ended := (ended scanner \<or> clean scanner = 0)\<rparr>))"

definition Err :: "'e Scanner \<Rightarrow> 'e scanError option" where
  "Err scanner =
     (if tooLong scanner then Some ErrTooLong
      else if ended scanner then map_option ReaderError (failure scanner)
      else None)"

section \<open>The parser (nfsstats.go, lines 113--321)\<close>

subsection \<open>makeUint64\<close>

definition makeUint64 :: "string list \<Rightarrow> uint64 list" where
  "makeUint64 tokens = map (\<lambda>element. fst (ParseUint element)) tokens"

subsection \<open>NewStatistics\<close>

definition zeroByteCounters :: ByteCounters where
  "zeroByteCounters =
     \<lparr>NormalReadBytes = 0, NormalWriteBytes = 0, DirectReadBytes = 0,
      DirectWriteBytes = 0, ServerReadBytes = 0, ServerWriteBytes = 0, ReadPages = 0,
      WritePages = 0\<rparr>"

definition zeroEventCounters :: EventCounters where
  "zeroEventCounters =
     \<lparr>InodeRevalidate = 0, DentryRevalidate = 0, DataInvalidate = 0,
      AttrInvalidate = 0, VFSOpen = 0, VFSLookup = 0, VFSAccess = 0, VFSUpdatePage = 0,
      VFSReadPage = 0, VFSReadPages = 0, VFSWritePage = 0, VFSWritePages = 0,
      VFSGetDents = 0, VFSSetAttr = 0, VFSFlush = 0, VFSSync = 0, VFSLock = 0,
      VFSRelease = 0, CongestionWait = 0, SetAttrTrunc = 0, ExtendWrite = 0,
      SillyRename = 0, ShortRead = 0, ShortWrite = 0, Delay = 0, PNFSRead = 0,
      PNFSWrite = 0\<rparr>"

definition zeroTransportCounters :: TransportCounters where
  "zeroTransportCounters =
     \<lparr>SourcePort = 0, BindCount = 0, ConnectCount = 0, ConnectTime = 0, IdleTime = 0,
      RPCSends = 0, RPCReceives = 0, BadTransactionIDs = 0, RequestUtilization = 0,
      BacklogUtilization = 0, MaxSlotsUsed = 0, SendingQueueUtilization = 0,
      PendingQueueUtilization = 0\<rparr>"

definition NewStatistics :: Statistics where
  "NewStatistics =
     \<lparr>Age = 0, Byte = zeroByteCounters, Event = zeroEventCounters, Operation = Some [],
      Transport = zeroTransportCounters\<rparr>"

subsection \<open>parseStatistics\<close>

text \<open>
  The composite literals of the four counter records. Every use is guarded by the
  token count of the line, so each index is in range.
\<close>

definition byteCounters :: "uint64 list \<Rightarrow> ByteCounters" where
  "byteCounters elements =
     \<lparr>NormalReadBytes = elements ! 0, NormalWriteBytes = elements ! 1,
      DirectReadBytes = elements ! 2, DirectWriteBytes = elements ! 3,
      ServerReadBytes = elements ! 4, ServerWriteBytes = elements ! 5,
      ReadPages = elements ! 6, WritePages = elements ! 7\<rparr>"

definition eventCounters :: "uint64 list \<Rightarrow> EventCounters" where
  "eventCounters elements =
     \<lparr>InodeRevalidate = elements ! 0, DentryRevalidate = elements ! 1,
      DataInvalidate = elements ! 2, AttrInvalidate = elements ! 3, VFSOpen = elements ! 4,
      VFSLookup = elements ! 5, VFSAccess = elements ! 6, VFSUpdatePage = elements ! 7,
      VFSReadPage = elements ! 8, VFSReadPages = elements ! 9, VFSWritePage = elements ! 10,
      VFSWritePages = elements ! 11, VFSGetDents = elements ! 12,
      VFSSetAttr = elements ! 13, VFSFlush = elements ! 14, VFSSync = elements ! 15,
      VFSLock = elements ! 16, VFSRelease = elements ! 17, CongestionWait = elements ! 18,
      SetAttrTrunc = elements ! 19, ExtendWrite = elements ! 20,
      SillyRename = elements ! 21, ShortRead = elements ! 22, ShortWrite = elements ! 23,
      Delay = elements ! 24, PNFSRead = elements ! 25, PNFSWrite = elements ! 26\<rparr>"

definition transportCounters :: "uint64 list \<Rightarrow> TransportCounters" where
  "transportCounters elements =
     \<lparr>SourcePort = elements ! 0, BindCount = elements ! 1,
      ConnectCount = elements ! 2, ConnectTime = elements ! 3, IdleTime = elements ! 4,
      RPCSends = elements ! 5, RPCReceives = elements ! 6, BadTransactionIDs = elements ! 7,
      RequestUtilization = elements ! 8, BacklogUtilization = elements ! 9,
      MaxSlotsUsed = elements ! 10, SendingQueueUtilization = elements ! 11,
      PendingQueueUtilization = elements ! 12\<rparr>"

definition operationCounters :: "uint64 list \<Rightarrow> OperationCounters" where
  "operationCounters elements =
     \<lparr>Requests = elements ! 0, Transmissions = elements ! 1, Timeouts = elements ! 2,
      BytesSent = elements ! 3, BytesReceived = elements ! 4, TotalQueueTime = elements ! 5,
      TotalResponseTime = elements ! 6, TotalExecutionTime = elements ! 7\<rparr>"

text \<open>
  The first loop of \<^verbatim>\<open>parseStatistics\<close>; \<open>tokens\<close> is the slice \<^verbatim>\<open>fields\<close> of the
  source, here and below. \<^verbatim>\<open>fields[1]\<close> is read on an \<^verbatim>\<open>age:\<close> line and
  on an \<^verbatim>\<open>xprt:\<close> line before any check of the token count: with one token only the
  index is out of range and the program panics.
\<close>

function statLoop :: "Statistics \<Rightarrow> 'e Scanner \<Rightarrow> panic + (Statistics \<times> 'e Scanner)" where
  "statLoop statistics scanner =
     (case Scan scanner of
        (None, scanner') \<Rightarrow> Inr (statistics, scanner')
      | (Some line, scanner') \<Rightarrow>
          (let tokens = Fields line in
           if length tokens = 0 then Inr (statistics, scanner')
           else if tokens ! 0 = ''per-op'' then Inr (statistics, scanner')
           else if tokens ! 0 = ''age:'' then
             (if length tokens < 2 then Inl IndexOutOfRange
              else statLoop (statistics\<lparr>Age := fst (ParseUint (tokens ! 1))\<rparr>) scanner')
           else if tokens ! 0 = ''bytes:'' then
             (if length tokens \<noteq> 9 then statLoop statistics scanner'
              else statLoop (statistics\<lparr>Byte := byteCounters (makeUint64 (drop 1 tokens))\<rparr>)
                     scanner')
           else if tokens ! 0 = ''events:'' then
             (if length tokens \<noteq> 28 then statLoop statistics scanner'
              else statLoop (statistics\<lparr>Event := eventCounters (makeUint64 (drop 1 tokens))\<rparr>)
                     scanner')
           else if tokens ! 0 = ''xprt:'' then
             (if length tokens < 2 then Inl IndexOutOfRange
              else if tokens ! 1 \<noteq> ''tcp'' then statLoop statistics scanner'
              else if length tokens \<noteq> 15 then statLoop statistics scanner'
              else statLoop
                     (statistics\<lparr>Transport := transportCounters (makeUint64 (drop 2 tokens))\<rparr>)
                     scanner')
           else statLoop statistics scanner'))"
  by pat_completeness auto
termination
  by (relation "measure (\<lambda>(statistics, scanner). length (pending scanner))")
     (auto simp: Scan_def split: list.splits if_splits)

declare statLoop.simps [simp del]

subsection \<open>parseOperations\<close>

text \<open>
  The loop of \<^verbatim>\<open>parseOperations\<close>. An assignment into a nil map panics; the map of
  \<^verbatim>\<open>NewStatistics\<close> is never nil.
\<close>

definition storeOperation ::
  "string \<Rightarrow> OperationCounters \<Rightarrow> (string \<times> OperationCounters) list
     \<Rightarrow> (string \<times> OperationCounters) list" where
  "storeOperation opName counters m =
     (if opName \<in> set (map fst m)
      then map (\<lambda>(k, v). if k = opName then (k, counters) else (k, v)) m
      else m @ [(opName, counters)])"

function parseOperations ::
  "'e Scanner \<Rightarrow> Statistics \<Rightarrow> panic + (Statistics \<times> 'e Scanner)" where
  "parseOperations scanner statistics =
     (case Scan scanner of
        (None, scanner') \<Rightarrow> Inr (statistics, scanner')
      | (Some line, scanner') \<Rightarrow>
          (let tokens = Fields line in
           if length tokens = 0 \<or> tokens ! 0 = ''device'' then Inr (statistics, scanner')
           else if length tokens \<noteq> 9 then parseOperations scanner' statistics
           else
             (let opName = TrimSuffix (tokens ! 0) '':'';
                  elements = makeUint64 (drop 1 tokens)
              in case Operation statistics of
                   None \<Rightarrow> Inl NilMapAssignment
                 | Some m \<Rightarrow>
                     parseOperations scanner'
                       (statistics\<lparr>Operation :=
                          Some (storeOperation opName (operationCounters elements) m)\<rparr>))))"
  by pat_completeness auto
termination
  by (relation "measure (\<lambda>(scanner, statistics). length (pending scanner))")
     (auto simp: Scan_def split: list.splits if_splits)

declare parseOperations.simps [simp del]

text \<open>
  \<^verbatim>\<open>parseStatistics\<close> returns \<^verbatim>\<open>(nil, err)\<close> when the scanner holds an error after the
  table of operations, and \<^verbatim>\<open>(statistics, nil)\<close> otherwise.
\<close>

definition parseStatistics ::
  "'e Scanner \<Rightarrow> panic + ((Statistics option \<times> 'e scanError option) \<times> 'e Scanner)"
  where
  "parseStatistics scanner =
     (case statLoop NewStatistics scanner of
        Inl p \<Rightarrow> Inl p
      | Inr (statistics, scanner1) \<Rightarrow>
          (case parseOperations scanner1 statistics of
             Inl p \<Rightarrow> Inl p
           | Inr (statistics', scanner2) \<Rightarrow>
               (case Err scanner2 of
                  Some err \<Rightarrow> Inr ((None, Some err), scanner2)
                | None \<Rightarrow> Inr ((Some statistics', None), scanner2))))"

subsection \<open>Parse\<close>

text \<open>
  Both inner loops only move the scanner forward; the loop of \<^verbatim>\<open>Parse\<close> terminates
  for that reason.
\<close>

lemma Scan_pending:
  "Scan scanner = (Some line, scanner') \<Longrightarrow> length (pending scanner') < length (pending scanner)"
  by (auto simp: Scan_def split: list.splits if_splits)

lemma Scan_pending_None:
  "Scan scanner = (None, scanner') \<Longrightarrow> length (pending scanner') \<le> length (pending scanner)"
  by (auto simp: Scan_def split: list.splits if_splits)

text \<open>Induction over the calls of \<^verbatim>\<open>Scan\<close> that deliver a line.\<close>

lemma Scan_induct [case_names Scan]:
  assumes "\<And>scanner. (\<And>line scanner'. Scan scanner = (Some line, scanner') \<Longrightarrow> P scanner')
             \<Longrightarrow> P scanner"
  shows "P scanner"
proof (induction "length (pending scanner)" arbitrary: scanner rule: less_induct)
  case less
  show ?case
    by (rule assms) (rule less.hyps, rule Scan_pending)
qed

lemma statLoop_pending:
  "statLoop statistics scanner = Inr (statistics', scanner')
   \<Longrightarrow> length (pending scanner') \<le> length (pending scanner)"
proof (induction scanner arbitrary: statistics rule: Scan_induct)
  case (Scan scanner)
  obtain r sc1 where sc1: "Scan scanner = (r, sc1)" by (cases "Scan scanner")
  show ?case
  proof (cases r)
    case None
    with sc1 Scan.prems show ?thesis
      by (subst (asm) statLoop.simps) (auto dest: Scan_pending_None)
  next
    case (Some line)
    with sc1 have s: "Scan scanner = (Some line, sc1)" by simp
    have le: "length (pending sc1) \<le> length (pending scanner)"
      using Scan_pending [OF s] by simp
    have step: "statLoop st sc1 = Inr (statistics', scanner')
        \<Longrightarrow> length (pending scanner') \<le> length (pending scanner)" for st
      using Scan.IH [OF s, of st] le by simp
    from Scan.prems le show ?thesis
      by (subst (asm) statLoop.simps) (auto simp: s Let_def split: if_splits dest: step)
  qed
qed

lemma parseOperations_pending:
  "parseOperations scanner statistics = Inr (statistics', scanner')
   \<Longrightarrow> length (pending scanner') \<le> length (pending scanner)"
proof (induction scanner arbitrary: statistics rule: Scan_induct)
  case (Scan scanner)
  obtain r sc1 where sc1: "Scan scanner = (r, sc1)" by (cases "Scan scanner")
  show ?case
  proof (cases r)
    case None
    with sc1 Scan.prems show ?thesis
      by (subst (asm) parseOperations.simps) (auto dest: Scan_pending_None)
  next
    case (Some line)
    with sc1 have s: "Scan scanner = (Some line, sc1)" by simp
    have le: "length (pending sc1) \<le> length (pending scanner)"
      using Scan_pending [OF s] by simp
    have step: "parseOperations sc1 st = Inr (statistics', scanner')
        \<Longrightarrow> length (pending scanner') \<le> length (pending scanner)" for st
      using Scan.IH [OF s, of st] le by simp
    from Scan.prems le show ?thesis
      by (subst (asm) parseOperations.simps)
         (auto simp: s Let_def split: if_splits option.splits dest: step)
  qed
qed

lemma parseStatistics_pending:
  "parseStatistics scanner = Inr (r, scanner')
   \<Longrightarrow> length (pending scanner') \<le> length (pending scanner)"
  by (auto simp: parseStatistics_def split: sum.splits option.splits
           dest!: statLoop_pending parseOperations_pending)

text \<open>
  Lines 131--148: the checks on a line whose first token is \<^verbatim>\<open>device\<close>, and the mount
  built when they pass (its \<^verbatim>\<open>Statistics\<close> still nil). \<^verbatim>\<open>None\<close> stands for \<^verbatim>\<open>continue\<close>.
\<close>

definition mountHeader :: "string list \<Rightarrow> NFSMount option" where
  "mountHeader tokens =
     (if length tokens \<noteq> 9 then None
      else if tokens ! 7 \<noteq> ''nfs'' \<and> tokens ! 7 \<noteq> ''nfs4'' then None
      else if tokens ! 8 \<noteq> ''statvers=1.1'' then None
      else (let nfsVersion = (if tokens ! 7 = ''nfs4'' then 4 else 3)
            in Some \<lparr>Device = tokens ! 1, Mountpoint = tokens ! 4, Statistics = None,
                      Version = nfsVersion\<rparr>))"

text \<open>
  The loop of \<^verbatim>\<open>Parse\<close>, with the slice \<^verbatim>\<open>nfsMounts\<close> (nil is the empty list). The
  result is the pair that \<^verbatim>\<open>Parse\<close> returns, or the panic.
\<close>

function parseLoop ::
  "NFSMount list \<Rightarrow> 'e Scanner \<Rightarrow> panic + (NFSMount list \<times> 'e scanError option)" where
  "parseLoop nfsMounts scanner =
     (case Scan scanner of
        (None, scanner') \<Rightarrow> Inr (nfsMounts, Err scanner')
      | (Some line, scanner') \<Rightarrow>
          (let tokens = Fields line in
           if length tokens = 0 then parseLoop nfsMounts scanner'
           else if tokens ! 0 = ''device'' then
             (case mountHeader tokens of
                None \<Rightarrow> parseLoop nfsMounts scanner'
              | Some nfsMount \<Rightarrow>
                  (case parseStatistics scanner' of
                     Inl p \<Rightarrow> Inl p
                   | Inr ((_, Some err), _) \<Rightarrow> Inr ([], Some err)
                   | Inr ((statistics, None), scanner'') \<Rightarrow>
                       parseLoop (nfsMounts @ [nfsMount\<lparr>Statistics := statistics\<rparr>])
                         scanner''))
           else parseLoop nfsMounts scanner'))"
  by pat_completeness auto
termination
proof (relation "measure (\<lambda>(nfsMounts, scanner). length (pending scanner))", goal_cases)
  case 1
  show ?case by simp
next
  case (2 nfsMounts scanner x1 x2 line tokens)
  then show ?case by (auto dest: Scan_pending [OF sym])
next
  case (3 nfsMounts scanner x1 x2 line tokens)
  then show ?case by (auto dest: Scan_pending [OF sym])
next
  case (4 nfsMounts scanner x1 x2 line tokens nfsMount r x3 x4 statistics err)
  then show ?case
    by (auto dest!: Scan_pending [OF sym] parseStatistics_pending)
next
  case 5
  then show ?case by (auto dest: Scan_pending [OF sym])
qed

declare parseLoop.simps [simp del]

definition Parse :: "'e Reader \<Rightarrow> panic + (NFSMount list \<times> 'e scanError option)" where
  "Parse reader = parseLoop [] (NewScanner reader)"

section \<open>The loops, one line at a time\<close>

text \<open>
  What one line does to the statistics in each of the two inner loops: \<^verbatim>\<open>break\<close>
  (\<open>Stop\<close>), a panic (\<open>Fail\<close>), or the next iteration with the statistics as they are
  then (\<open>Next\<close>). The branches are those of the loops above, and the lemmas
  \<open>statLoop_Some\<close> and \<open>parseOperations_Some\<close> below say so.
\<close>

datatype 'a lineStep = Stop | Fail panic | Next 'a

definition statLine :: "Statistics \<Rightarrow> string list \<Rightarrow> Statistics lineStep" where
  "statLine statistics tokens =
     (if length tokens = 0 then Stop
      else if tokens ! 0 = ''per-op'' then Stop
      else if tokens ! 0 = ''age:'' then
        (if length tokens < 2 then Fail IndexOutOfRange
         else Next (statistics\<lparr>Age := fst (ParseUint (tokens ! 1))\<rparr>))
      else if tokens ! 0 = ''bytes:'' then
        (if length tokens \<noteq> 9 then Next statistics
         else Next (statistics\<lparr>Byte := byteCounters (makeUint64 (drop 1 tokens))\<rparr>))
      else if tokens ! 0 = ''events:'' then
        (if length tokens \<noteq> 28 then Next statistics
         else Next (statistics\<lparr>Event := eventCounters (makeUint64 (drop 1 tokens))\<rparr>))
      else if tokens ! 0 = ''xprt:'' then
        (if length tokens < 2 then Fail IndexOutOfRange
         else if tokens ! 1 \<noteq> ''tcp'' then Next statistics
         else if length tokens \<noteq> 15 then Next statistics
         else Next (statistics\<lparr>Transport := transportCounters (makeUint64 (drop 2 tokens))\<rparr>))
      else Next statistics)"

definition opLine :: "Statistics \<Rightarrow> string list \<Rightarrow> Statistics lineStep" where
  "opLine statistics tokens =
     (if length tokens = 0 \<or> tokens ! 0 = ''device'' then Stop
      else if length tokens \<noteq> 9 then Next statistics
      else (case Operation statistics of
              None \<Rightarrow> Fail NilMapAssignment
            | Some m \<Rightarrow>
                Next (statistics\<lparr>Operation :=
                  Some (storeOperation (TrimSuffix (tokens ! 0) '':'')
                          (operationCounters (makeUint64 (drop 1 tokens))) m)\<rparr>)))"

section \<open>Notions used to state the claims\<close>

text \<open>
  The lines that the coming calls of \<^verbatim>\<open>Scan\<close> deliver, up to the first call that returns
  false: the lines of the input as the loops of the parser read them.
\<close>

function upcoming :: "'e Scanner \<Rightarrow> string list" where
  "upcoming scanner =
     (case Scan scanner of
        (None, scanner') \<Rightarrow> []
      | (Some line, scanner') \<Rightarrow> line # upcoming scanner')"
  by pat_completeness auto
termination
  by (relation "measure (\<lambda>scanner. length (pending scanner))")
     (auto dest: Scan_pending [OF sym])

declare upcoming.simps [simp del]

text \<open>
  The lines of the input as \<^verbatim>\<open>bufio.ScanLines\<close> cuts them: without the line feed, and
  without the carriage return before it.
\<close>

definition inputLines :: "'e Reader \<Rightarrow> string list" where
  "inputLines reader = map dropCR (content reader)"

text \<open>
  The number a string of decimal digits denotes, read from the left starting from \<open>v\<close>.
\<close>

primrec decimalFrom :: "nat \<Rightarrow> string \<Rightarrow> nat" where
  "decimalFrom v [] = v"
| "decimalFrom v (c # cs) = decimalFrom (10 * v + (of_char c - of_char (CHR ''0''))) cs"

definition decimalValue :: "string \<Rightarrow> nat" where
  "decimalValue s = decimalFrom 0 s"

text \<open>
  Every line still to come fits the buffer of the scanner: the scanner has not stopped
  with \<^verbatim>\<open>ErrTooLong\<close>, and no pending line has \<^verbatim>\<open>MaxScanTokenSize\<close> bytes or more.
\<close>

definition fits :: "'e Scanner \<Rightarrow> bool" where
  "fits scanner =
     (\<not> tooLong scanner
      \<and> (\<forall>line\<in>set (pending scanner). int (length line) < MaxScanTokenSize))"

text \<open>
  The value a numeric token stands for in the counters: that of its decimal digits when
  the token is a string of decimal digits, not empty, of value at most \<^verbatim>\<open>1<<64 - 1\<close>;
  \<^verbatim>\<open>1<<64 - 1\<close> when its leading decimal digits denote more than that; zero otherwise.
\<close>

definition converted :: "string \<Rightarrow> uint64" where
  "converted token =
     (let p = takeWhile isDigit token; v = decimalValue p
      in if 2 ^ 64 \<le> v then maxUint64
         else if p = token \<and> token \<noteq> [] then of_nat v else 0)"

text \<open>The predicate on a line that the loop of \<^verbatim>\<open>Parse\<close> applies (lines 131--135).\<close>

definition headerLine :: "string \<Rightarrow> bool" where
  "headerLine line =
     (let tokens = Fields line
      in length tokens = 9 \<and> tokens ! 0 = ''device''
         \<and> (tokens ! 7 = ''nfs'' \<or> tokens ! 7 = ''nfs4'')
         \<and> tokens ! 8 = ''statvers=1.1'')"

text \<open>The mount that \<^verbatim>\<open>Parse\<close> appends for a header line and the statistics parsed.\<close>

definition mountRecord :: "string \<Rightarrow> Statistics option \<Rightarrow> NFSMount" where
  "mountRecord line statistics =
     \<lparr>Device = Fields line ! 1, Mountpoint = Fields line ! 4, Statistics = statistics,
      Version = (if Fields line ! 7 = ''nfs4'' then 4 else 3)\<rparr>"

text \<open>What every mount returned satisfies (used for the invariant of the loop).\<close>

definition goodMount :: "NFSMount \<Rightarrow> bool" where
  "goodMount m = ((\<exists>st. Statistics m = Some st \<and> Operation st \<noteq> None)
                  \<and> (Version m = 3 \<or> Version m = 4))"

text \<open>
  The lines of a statistics block: those the first loop of \<^verbatim>\<open>parseStatistics\<close> reads
  before the blank line or the \<^verbatim>\<open>per-op\<close> line that ends it.
\<close>

definition statisticsBlock :: "string list \<Rightarrow> string list" where
  "statisticsBlock lines =
     takeWhile (\<lambda>line. Fields line \<noteq> [] \<and> Fields line ! 0 \<noteq> ''per-op'') lines"

text \<open>
  The lines of a table of operations: those \<^verbatim>\<open>parseOperations\<close> reads before the blank
  line or the \<^verbatim>\<open>device\<close> line that ends it. A line of the table counts for an operation
  name when it has nine tokens and its first token, a final \<^verbatim>\<open>:\<close> removed, is the name;
  its counters are those of tokens 1 to 8.
\<close>

definition operationTable :: "string list \<Rightarrow> string list" where
  "operationTable lines =
     takeWhile (\<lambda>line. Fields line \<noteq> [] \<and> Fields line ! 0 \<noteq> ''device'') lines"

definition operationLine :: "string \<Rightarrow> string \<Rightarrow> bool" where
  "operationLine opName line =
     (length (Fields line) = 9 \<and> TrimSuffix (Fields line ! 0) '':'' = opName)"

definition countersOf :: "string \<Rightarrow> OperationCounters" where
  "countersOf line = operationCounters (makeUint64 (drop 1 (Fields line)))"

text \<open>
  The three states of the parser: the loop of \<^verbatim>\<open>Parse\<close>, the first loop of
  \<^verbatim>\<open>parseStatistics\<close>, and the loop of \<^verbatim>\<open>parseOperations\<close>.
\<close>

datatype phase = ScanningForHeader | ParsingStatBlock | ParsingOperations

text \<open>
  Input that follows the \<^verbatim>\<open>mountstats\<close> layout, as the kernel writes it for
  \<^verbatim>\<open>statvers=1.1\<close>. Outside the block of an NFS mount any line may stand (the lines of
  other mounts, blank lines). The block of an NFS mount is its header line; then the
  lines of statistics, none of them blank or starting with \<^verbatim>\<open>device\<close>, an \<^verbatim>\<open>age:\<close> or
  \<^verbatim>\<open>xprt:\<close> line holding a second token at least; then the \<^verbatim>\<open>per-op statistics\<close> line;
  then the lines of operations, none of them blank or starting with \<^verbatim>\<open>device\<close>; then a
  blank line. The input may end at any point.
\<close>

fun conforms :: "phase \<Rightarrow> string list \<Rightarrow> bool" where
  "conforms phase [] = True"
| "conforms ScanningForHeader (line # rest) =
     (if headerLine line then conforms ParsingStatBlock rest
      else conforms ScanningForHeader rest)"
| "conforms ParsingStatBlock (line # rest) =
     (let tokens = Fields line
      in tokens \<noteq> [] \<and> tokens ! 0 \<noteq> ''device''
         \<and> (if tokens ! 0 = ''per-op'' then conforms ParsingOperations rest
            else (tokens ! 0 = ''age:'' \<or> tokens ! 0 = ''xprt:'' \<longrightarrow> 2 \<le> length tokens)
                 \<and> conforms ParsingStatBlock rest))"
| "conforms ParsingOperations (line # rest) =
     (let tokens = Fields line
      in if tokens = [] then conforms ScanningForHeader rest
         else tokens ! 0 \<noteq> ''device'' \<and> conforms ParsingOperations rest)"

definition wellFormed :: "string list \<Rightarrow> bool" where
  "wellFormed lines = conforms ScanningForHeader lines"

text \<open>
  The state the parser is in after a run of lines, by the transitions of the three
  loops: a header line starts a statistics block; a blank line or a \<^verbatim>\<open>per-op\<close> line
  ends the block and starts the table of operations; a blank line or a \<^verbatim>\<open>device\<close> line
  ends the table.
\<close>

fun phaseAfter :: "phase \<Rightarrow> string list \<Rightarrow> phase" where
  "phaseAfter phase [] = phase"
| "phaseAfter ScanningForHeader (line # rest) =
     phaseAfter (if headerLine line then ParsingStatBlock else ScanningForHeader) rest"
| "phaseAfter ParsingStatBlock (line # rest) =
     phaseAfter (if Fields line = [] \<or> Fields line ! 0 = ''per-op'' then ParsingOperations
                 else ParsingStatBlock) rest"
| "phaseAfter ParsingOperations (line # rest) =
     phaseAfter (if Fields line = [] \<or> Fields line ! 0 = ''device'' then ScanningForHeader
                 else ParsingOperations) rest"

text \<open>
  The scanner meets the end of the reader outside the blocks: after the \<open>n\<close> lines
  delivered before, the parser is scanning for a header, and no header line is among the
  lines delivered after.
\<close>

definition errorMetOutsideBlocks :: "nat \<Rightarrow> string list \<Rightarrow> bool" where
  "errorMetOutsideBlocks n lines =
     (phaseAfter ScanningForHeader (take n lines) = ScanningForHeader
      \<and> (\<forall>line\<in>set (drop n lines). \<not> headerLine line))"

text \<open>
  The same for a scanner on its way: when it has already met the end, no header line
  may follow at all.
\<close>

definition quiet :: "'e Scanner \<Rightarrow> bool" where
  "quiet scanner =
     (if ended scanner then (\<forall>line\<in>set (upcoming scanner). \<not> headerLine line)
      else errorMetOutsideBlocks (clean scanner) (upcoming scanner))"

section \<open>Numeric conversion\<close>

lemma decimalFrom_ge: "v \<le> decimalFrom v s"
proof (induction s arbitrary: v)
  case Nil
  show ?case by simp
next
  case (Cons c cs)
  have "v \<le> 10 * v + (of_char c - of_char (CHR ''0''))" by simp
  also have "\<dots> \<le> decimalFrom (10 * v + (of_char c - of_char (CHR ''0''))) cs"
    by (rule Cons.IH)
  finally show ?case by simp
qed

lemma digitVal_unat:
  assumes "isDigit c"
  shows "unat (digitVal c) = of_char c - of_char (CHR ''0'')" and "unat (digitVal c) < 10"
proof -
  let ?d = "(of_char c :: nat) - of_char (CHR ''0'')"
  have d: "?d < 10" using assms unfolding isDigit_def by simp linarith
  have "unat (of_nat ?d :: uint64) = ?d mod 2 ^ 64"
    by (simp only: unat_of_nat len_of_numeral_defs) simp
  also have "\<dots> = ?d" using d by simp
  finally show "unat (digitVal c) = of_char c - of_char (CHR ''0'')"
    by (simp only: digitVal_def)
  then show "unat (digitVal c) < 10" using d by simp
qed

lemma unat_less_64: "unat (n :: uint64) < 2 ^ 64"
proof -
  have "(unsigned n :: nat) < 2 ^ LENGTH(64)" by (rule unsigned_less)
  then show ?thesis by simp
qed

lemma not_above_maxUint64: "\<not> maxUint64 < (n :: uint64)"
proof -
  have "unat maxUint64 = 18446744073709551615" by (simp add: maxUint64_def)
  with unat_less_64 [of n] show ?thesis by (simp add: word_less_nat_alt)
qed

lemma cutoff_iff: "(cutoff \<le> n) = (2 ^ 64 \<le> 10 * unat n)"
proof -
  have c: "unat cutoff = 1844674407370955162"
    by (simp add: cutoff_def maxUint64_def)
  have "(1844674407370955162 \<le> unat n) = (18446744073709551616 \<le> 10 * unat n)"
    by presburger
  then show ?thesis
    unfolding word_le_nat_alt c by simp
qed

lemma mul10: "10 * unat (n :: uint64) < 2 ^ 64 \<Longrightarrow> unat (n * 10) = 10 * unat n"
  using unat_mult_lem [of n 10] by (simp add: mult.commute)

lemma add_overflow: "unat (a :: uint64) + unat b < 2 ^ 64 \<Longrightarrow> \<not> (a + b < a) \<and> unat (a + b) = unat a + unat b"
  using unat_add_lem [of a b] by (simp add: word_less_nat_alt)

lemma add_overflow2: "2 ^ 64 \<le> unat (a :: uint64) + unat b \<Longrightarrow> a + b < a"
proof -
  assume h: "2 ^ 64 \<le> unat a + unat b"
  have b: "unat b < 2 ^ 64" and a: "unat a < 2 ^ 64"
    using unat_less_64 [of b] unat_less_64 [of a] by simp_all
  have "unat (a + b) = (unat a + unat b) mod 2 ^ 64"
    by (simp add: unat_word_ariths)
  also have "\<dots> = unat a + unat b - 2 ^ 64"
    using h a b by (simp add: mod_if)
  also have "\<dots> < unat a" using h a b by simp
  finally show ?thesis by (simp add: word_less_nat_alt)
qed

lemma parseUintLoop_spec:
  "parseUintLoop cs n =
     (let p = takeWhile isDigit cs; v = decimalFrom (unat n) p
      in if 2 ^ 64 \<le> v then (maxUint64, Some ErrRange)
         else if p = cs then (of_nat v, None) else (0, Some ErrSyntax))"
proof (induction cs arbitrary: n)
  case Nil
  show ?case using unat_less_64 [of n] by (simp add: Let_def)
next
  case (Cons c cs)
  show ?case
  proof (cases "isDigit c")
    case False
    then show ?thesis using unat_less_64 [of n] by (simp add: Let_def)
  next
    case True
    define k where "k = (of_char c :: nat) - of_char (CHR ''0'')"
    define p where "p = takeWhile isDigit cs"
    define L where "L = (2::nat) ^ 64"
    have d: "unat (digitVal c) = k"
      using digitVal_unat(1) [OF True] by (simp add: k_def)
    have step: "parseUintLoop (c # cs) n =
        (if cutoff \<le> n then (maxUint64, Some ErrRange)
         else if n * 10 + digitVal c < n * 10 then (maxUint64, Some ErrRange)
         else parseUintLoop cs (n * 10 + digitVal c))"
      using True by (simp add: Let_def not_above_maxUint64)
    have rhs: "(let q = takeWhile isDigit (c # cs); v = decimalFrom (unat n) q
      in if 2 ^ 64 \<le> v then (maxUint64, Some ErrRange)
         else if q = c # cs then (of_nat v, None) else (0, Some ErrSyntax))
      = (if L \<le> decimalFrom (10 * unat n + k) p then (maxUint64, Some ErrRange)
         else if p = cs then (of_nat (decimalFrom (10 * unat n + k) p), None)
         else (0, Some ErrSyntax))"
      using True by (simp add: Let_def k_def p_def L_def)
    have ge: "10 * unat n + k \<le> decimalFrom (10 * unat n + k) p"
      by (rule decimalFrom_ge)
    have co: "(cutoff \<le> n) = (L \<le> 10 * unat n)"
      by (simp only: cutoff_iff L_def)
    show ?thesis
    proof (cases "L \<le> 10 * unat n")
      case True
      then have "L \<le> decimalFrom (10 * unat n + k) p" using ge by linarith
      with True co show ?thesis by (simp only: step rhs if_True)
    next
      case small: False
      then have m: "unat (n * 10) = 10 * unat n" by (simp add: mul10 L_def)
      show ?thesis
      proof (cases "L \<le> 10 * unat n + k")
        case True
        then have lt: "n * 10 + digitVal c < n * 10"
          using add_overflow2 [of "n * 10" "digitVal c"] m d by (simp add: L_def)
        have "L \<le> decimalFrom (10 * unat n + k) p" using ge True by linarith
        with small co lt show ?thesis by (simp only: step rhs if_True if_False)
      next
        case False
        then have ok: "\<not> (n * 10 + digitVal c < n * 10)"
          and u: "unat (n * 10 + digitVal c) = 10 * unat n + k"
          using add_overflow [of "n * 10" "digitVal c"] m d by (simp_all add: L_def)
        have "parseUintLoop cs (n * 10 + digitVal c) =
            (if L \<le> decimalFrom (10 * unat n + k) p then (maxUint64, Some ErrRange)
             else if p = cs then (of_nat (decimalFrom (10 * unat n + k) p), None)
             else (0, Some ErrSyntax))"
          by (simp only: Cons.IH [of "n * 10 + digitVal c"] u Let_def p_def L_def)
        with small co ok show ?thesis by (simp only: step rhs if_False)
      qed
    qed
  qed
qed

lemma ParseUint_spec:
  "ParseUint s =
     (let p = takeWhile isDigit s; v = decimalValue p
      in if 2 ^ 64 \<le> v then (maxUint64, Some ErrRange)
         else if p = s \<and> s \<noteq> [] then (of_nat v, None) else (0, Some ErrSyntax))"
  by (simp add: ParseUint_def parseUintLoop_spec decimalValue_def Let_def)

lemma ParseUint_converted: "fst (ParseUint token) = converted token"
  by (simp add: ParseUint_spec converted_def Let_def)

lemma makeUint64_converted: "makeUint64 tokens = map converted tokens"
  by (simp add: makeUint64_def ParseUint_converted)

section \<open>The scanner, one call at a time\<close>

lemma Scan_Some:
  assumes "Scan scanner = (Some line, scanner')"
  shows "failure scanner' = failure scanner"
    and "tooLong scanner' = tooLong scanner"
    and "clean scanner' = clean scanner - 1"
    and "ended scanner' = (ended scanner \<or> clean scanner = 0)"
    and "upcoming scanner = line # upcoming scanner'"
proof -
  from assms show "failure scanner' = failure scanner" "tooLong scanner' = tooLong scanner"
    "clean scanner' = clean scanner - 1" "ended scanner' = (ended scanner \<or> clean scanner = 0)"
    by (auto simp: Scan_def split: list.splits if_splits)
  from assms show "upcoming scanner = line # upcoming scanner'"
    by (subst upcoming.simps) simp
qed

lemma Scan_None:
  assumes "Scan scanner = (None, scanner')"
  shows "ended scanner'"
    and "failure scanner' = failure scanner"
    and "clean scanner' = clean scanner"
    and "upcoming scanner = []"
proof -
  from assms show "ended scanner'" "failure scanner' = failure scanner"
    "clean scanner' = clean scanner"
    by (auto simp: Scan_def split: list.splits if_splits)
  from assms show "upcoming scanner = []"
    by (subst upcoming.simps) simp
qed

text \<open>
  When \<^verbatim>\<open>Scan\<close> has returned false for another reason than \<^verbatim>\<open>ErrTooLong\<close>, the input is
  used up and every further call returns false.
\<close>

lemma Scan_None_again:
  assumes "Scan scanner = (None, scanner')" and "\<not> tooLong scanner'"
  shows "Scan scanner' = (None, scanner')" and "upcoming scanner' = []"
    and "pending scanner = []"
proof -
  from assms show a: "Scan scanner' = (None, scanner')" and "pending scanner = []"
    by (auto simp: Scan_def split: list.splits if_splits)
  show "upcoming scanner' = []"
    by (rule Scan_None(4) [OF a])
qed

lemma Scan_tooLong:
  "Scan scanner = (r, scanner') \<Longrightarrow> tooLong scanner \<Longrightarrow> tooLong scanner'"
  by (auto simp: Scan_def split: list.splits if_splits)

lemma Scan_ended:
  "Scan scanner = (r, scanner') \<Longrightarrow> ended scanner \<Longrightarrow> ended scanner'"
  by (auto simp: Scan_def split: list.splits if_splits)

lemma upcoming_Nil: "pending scanner = [] \<Longrightarrow> upcoming scanner = []"
  by (subst upcoming.simps) (simp add: Scan_def)

text \<open>\<^verbatim>\<open>Scan\<close> does not look at how the reader ends.\<close>

lemma Scan_failure:
  "Scan (scanner\<lparr>failure := f\<rparr>) =
     (fst (Scan scanner), (snd (Scan scanner))\<lparr>failure := f\<rparr>)"
  by (auto simp: Scan_def tokenTooLong_def split: list.splits)

lemma Scan_failure_Some:
  "Scan scanner = (Some line, scanner') \<Longrightarrow>
   Scan (scanner\<lparr>failure := f\<rparr>) = (Some line, scanner'\<lparr>failure := f\<rparr>)"
  by (simp add: Scan_failure)

lemma Scan_failure_None:
  "Scan scanner = (None, scanner') \<Longrightarrow>
   Scan (scanner\<lparr>failure := f\<rparr>) = (None, scanner'\<lparr>failure := f\<rparr>)"
  by (simp add: Scan_failure)

lemma upcoming_failure: "upcoming (scanner\<lparr>failure := f\<rparr>) = upcoming scanner"
proof (induction scanner rule: Scan_induct)
  case (Scan scanner)
  obtain r sc1 where sc1: "Scan scanner = (r, sc1)" by (cases "Scan scanner")
  show ?case
  proof (cases r)
    case None
    with sc1 show ?thesis
      by (simp add: Scan_None(4) [OF Scan_failure_None] Scan_None(4))
  next
    case (Some line)
    with sc1 have s: "Scan scanner = (Some line, sc1)" by simp
    from Scan.IH [OF s] show ?thesis
      by (simp add: Scan_Some(5) [OF s] Scan_Some(5) [OF Scan_failure_Some [OF s]])
  qed
qed

text \<open>
  When every pending line is shorter than \<^verbatim>\<open>MaxScanTokenSize\<close>, the scanner delivers
  them all, each without its final carriage return.
\<close>

lemma upcoming_short:
  "\<forall>line\<in>set (pending scanner). int (length line) < MaxScanTokenSize
   \<Longrightarrow> upcoming scanner = map dropCR (pending scanner)"
proof (induction "pending scanner" arbitrary: scanner)
  case Nil
  then show ?case by (simp add: upcoming_Nil)
next
  case (Cons line rest)
  from Cons.hyps(2) [symmetric] Cons.prems
  have "Scan scanner = (Some (dropCR line),
          scanner\<lparr>pending := rest, clean := clean scanner - 1,
                   ended := (ended scanner \<or> clean scanner = 0)\<rparr>)"
    by (simp add: Scan_def tokenTooLong_def)
  from Scan_Some(5) [OF this] Cons.hyps(1) [of "scanner\<lparr>pending := rest, clean := clean scanner - 1,
                   ended := (ended scanner \<or> clean scanner = 0)\<rparr>"] Cons.hyps(2) [symmetric] Cons.prems
  show ?case by simp
qed

text \<open>
  White space in \<^verbatim>\<open>strings.Fields\<close> is that of Unicode: U+00A0, U+0085 and U+2003 in
  UTF-8 separate tokens as a space does; a byte \<^verbatim>\<open>0xA0\<close> that is no UTF-8 encoding
  does not.
\<close>

lemma Fields_Unicode_space:
  "Fields (''bytes: 1 2 3 4 5 6 7'' @ [CHR 0xC2, CHR 0xA0] @ ''8'')
     = [''bytes:'', ''1'', ''2'', ''3'', ''4'', ''5'', ''6'', ''7'', ''8'']
   \<and> Fields (''a'' @ [CHR 0xC2, CHR 0x85] @ ''b'' @ [CHR 0xE2, CHR 0x80, CHR 0x83] @ ''c'')
       = [''a'', ''b'', ''c'']
   \<and> Fields (''xprt: tcp'' @ [CHR 0xC2, CHR 0xA0] @ ''800 1'') = [''xprt:'', ''tcp'', ''800'', ''1'']
   \<and> Fields (''a'' @ [CHR 0xA0] @ ''b c'') = [''a'' @ [CHR 0xA0] @ ''b'', ''c'']"
  by code_simp

text \<open>
  At a line of 64 KiB \<^verbatim>\<open>Scan\<close> returns false and \<^verbatim>\<open>Err\<close> returns \<^verbatim>\<open>ErrTooLong\<close>; a
  carriage return before the line feed is not part of the line delivered.
\<close>

lemma Scan_long_line:
  "Scan \<lparr>pending = [replicate 65536 (CHR ''x''), ''age: 1''], clean = 2,
         failure = (None :: unit option), ended = False, tooLong = False\<rparr>
     = (None, \<lparr>pending = [replicate 65536 (CHR ''x'')], clean = 2, failure = None,
               ended = True, tooLong = True\<rparr>)
   \<and> Err \<lparr>pending = [replicate 65536 (CHR ''x'')], clean = 2,
           failure = (None :: unit option), ended = True, tooLong = True\<rparr> = Some ErrTooLong
   \<and> fst (Scan \<lparr>pending = [''age: 1'' @ [CHR 0x0D]], clean = 1,
                 failure = (None :: unit option), ended = False, tooLong = False\<rparr>)
       = Some ''age: 1''"
  by (simp add: Scan_def tokenTooLong_def MaxScanTokenSize_def Err_def dropCR_def)

section \<open>Unfolding the loops\<close>

lemma statLoop_None:
  "Scan scanner = (None, scanner') \<Longrightarrow> statLoop statistics scanner = Inr (statistics, scanner')"
  by (subst statLoop.simps) simp

lemma statLoop_Some:
  "Scan scanner = (Some line, scanner') \<Longrightarrow>
   statLoop statistics scanner =
     (case statLine statistics (Fields line) of
        Stop \<Rightarrow> Inr (statistics, scanner')
      | Fail p \<Rightarrow> Inl p
      | Next statistics' \<Rightarrow> statLoop statistics' scanner')"
  by (subst statLoop.simps) (simp add: statLine_def Let_def)

lemma parseOperations_None:
  "Scan scanner = (None, scanner') \<Longrightarrow>
   parseOperations scanner statistics = Inr (statistics, scanner')"
  by (subst parseOperations.simps) simp

lemma parseOperations_Some:
  "Scan scanner = (Some line, scanner') \<Longrightarrow>
   parseOperations scanner statistics =
     (case opLine statistics (Fields line) of
        Stop \<Rightarrow> Inr (statistics, scanner')
      | Fail p \<Rightarrow> Inl p
      | Next statistics' \<Rightarrow> parseOperations scanner' statistics')"
  by (subst parseOperations.simps) (simp add: opLine_def Let_def split: option.splits)

lemma parseLoop_None:
  "Scan scanner = (None, scanner') \<Longrightarrow> parseLoop nfsMounts scanner = Inr (nfsMounts, Err scanner')"
  by (subst parseLoop.simps) simp

lemma mountHeader_Some:
  "tokens \<noteq> [] \<and> tokens ! 0 = ''device'' \<and> mountHeader tokens \<noteq> None
   \<longleftrightarrow> length tokens = 9 \<and> tokens ! 0 = ''device''
         \<and> (tokens ! 7 = ''nfs'' \<or> tokens ! 7 = ''nfs4'') \<and> tokens ! 8 = ''statvers=1.1''"
  by (auto simp: mountHeader_def Let_def)

lemma parseLoop_skip:
  "Scan scanner = (Some line, scanner') \<Longrightarrow> \<not> headerLine line \<Longrightarrow>
   parseLoop nfsMounts scanner = parseLoop nfsMounts scanner'"
  by (subst parseLoop.simps) (auto simp: headerLine_def mountHeader_def Let_def)

lemma parseLoop_header:
  "Scan scanner = (Some line, scanner') \<Longrightarrow> headerLine line \<Longrightarrow>
   parseLoop nfsMounts scanner =
     (case parseStatistics scanner' of
        Inl p \<Rightarrow> Inl p
      | Inr ((_, Some err), _) \<Rightarrow> Inr ([], Some err)
      | Inr ((statistics, None), scanner'') \<Rightarrow>
          parseLoop
            (nfsMounts @
               [\<lparr>Device = Fields line ! 1, Mountpoint = Fields line ! 4,
                 Statistics = statistics,
                 Version = (if Fields line ! 7 = ''nfs4'' then 4 else 3)\<rparr>])
            scanner'')"
  by (subst parseLoop.simps)
     (auto simp: headerLine_def mountHeader_def Let_def split: sum.splits option.splits)

text \<open>
  Induction over a run of a loop that returns: the loop ends when \<^verbatim>\<open>Scan\<close> returns
  false, stops at a line, or goes on after a line.
\<close>

lemma statLoop_runs [consumes 1, case_names End Stop Next]:
  assumes run: "statLoop statistics scanner = Inr (statistics', scanner')"
    and atEnd: "\<And>st sc sc1. Scan sc = (None, sc1) \<Longrightarrow> P st sc st sc1"
    and atStop: "\<And>st sc line sc1. Scan sc = (Some line, sc1) \<Longrightarrow>
       statLine st (Fields line) = Stop \<Longrightarrow> P st sc st sc1"
    and atNext: "\<And>st sc line sc1 st1 st' sc'. Scan sc = (Some line, sc1) \<Longrightarrow>
       statLine st (Fields line) = Next st1 \<Longrightarrow> statLoop st1 sc1 = Inr (st', sc') \<Longrightarrow>
       P st1 sc1 st' sc' \<Longrightarrow> P st sc st' sc'"
  shows "P statistics scanner statistics' scanner'"
  using run
proof (induction scanner arbitrary: statistics rule: Scan_induct)
  case (Scan scanner)
  obtain r sc1 where sc1: "Scan scanner = (r, sc1)" by (cases "Scan scanner")
  show ?case
  proof (cases r)
    case None
    with sc1 have s: "Scan scanner = (None, sc1)" by simp
    from Scan.prems atEnd [OF s, of statistics] show ?thesis
      by (simp add: statLoop_None [OF s])
  next
    case (Some l)
    with sc1 have s: "Scan scanner = (Some l, sc1)" by simp
    show ?thesis
    proof (cases "statLine statistics (Fields l)")
      case Stop
      with atStop [OF s] Scan.prems show ?thesis
        by (simp add: statLoop_Some [OF s])
    next
      case (Fail p)
      with Scan.prems show ?thesis by (simp add: statLoop_Some [OF s])
    next
      case (Next st1)
      with Scan.prems have r: "statLoop st1 sc1 = Inr (statistics', scanner')"
        by (simp add: statLoop_Some [OF s])
      have "P st1 sc1 statistics' scanner'"
        by (rule Scan.IH [OF s r])
      then show ?thesis by (rule atNext [OF s Next r])
    qed
  qed
qed

lemma parseOperations_runs [consumes 1, case_names End Stop Next]:
  assumes run: "parseOperations scanner statistics = Inr (statistics', scanner')"
    and atEnd: "\<And>st sc sc1. Scan sc = (None, sc1) \<Longrightarrow> P st sc st sc1"
    and atStop: "\<And>st sc line sc1. Scan sc = (Some line, sc1) \<Longrightarrow>
       opLine st (Fields line) = Stop \<Longrightarrow> P st sc st sc1"
    and atNext: "\<And>st sc line sc1 st1 st' sc'. Scan sc = (Some line, sc1) \<Longrightarrow>
       opLine st (Fields line) = Next st1 \<Longrightarrow> parseOperations sc1 st1 = Inr (st', sc') \<Longrightarrow>
       P st1 sc1 st' sc' \<Longrightarrow> P st sc st' sc'"
  shows "P statistics scanner statistics' scanner'"
  using run
proof (induction scanner arbitrary: statistics rule: Scan_induct)
  case (Scan scanner)
  obtain r sc1 where sc1: "Scan scanner = (r, sc1)" by (cases "Scan scanner")
  show ?case
  proof (cases r)
    case None
    with sc1 have s: "Scan scanner = (None, sc1)" by simp
    from Scan.prems atEnd [OF s, of statistics] show ?thesis
      by (simp add: parseOperations_None [OF s])
  next
    case (Some l)
    with sc1 have s: "Scan scanner = (Some l, sc1)" by simp
    show ?thesis
    proof (cases "opLine statistics (Fields l)")
      case Stop
      with atStop [OF s] Scan.prems show ?thesis
        by (simp add: parseOperations_Some [OF s])
    next
      case (Fail p)
      with Scan.prems show ?thesis by (simp add: parseOperations_Some [OF s])
    next
      case (Next st1)
      with Scan.prems have r: "parseOperations sc1 st1 = Inr (statistics', scanner')"
        by (simp add: parseOperations_Some [OF s])
      have "P st1 sc1 statistics' scanner'"
        by (rule Scan.IH [OF s r])
      then show ?thesis by (rule atNext [OF s Next r])
    qed
  qed
qed

lemma statLine_Operation: "statLine st tokens = Next st' \<Longrightarrow> Operation st' = Operation st"
  by (auto simp: statLine_def split: if_splits)

lemma statLoop_Operation:
  "statLoop st sc = Inr (st', sc') \<Longrightarrow> Operation st' = Operation st"
  by (induction rule: statLoop_runs) (auto dest: statLine_Operation)

lemma opLine_Operation:
  "opLine st tokens = Next st' \<Longrightarrow> Operation st \<noteq> None \<Longrightarrow> Operation st' \<noteq> None"
  by (auto simp: opLine_def split: if_splits option.splits)

lemma parseOperations_Operation:
  "parseOperations sc st = Inr (st', sc') \<Longrightarrow> Operation st \<noteq> None \<Longrightarrow> Operation st' \<noteq> None"
  by (induction rule: parseOperations_runs) (auto dest: opLine_Operation)

lemma parseStatistics_Inr:
  assumes "parseStatistics sc = Inr (res, sc')"
  obtains st1 sc1 st2 where
    "statLoop NewStatistics sc = Inr (st1, sc1)"
    "parseOperations sc1 st1 = Inr (st2, sc')"
    "res = (case Err sc' of Some e \<Rightarrow> (None, Some e) | None \<Rightarrow> (Some st2, None))"
proof (cases "statLoop NewStatistics sc")
  case (Inl p)
  with assms show ?thesis by (simp add: parseStatistics_def)
next
  case (Inr r1)
  obtain st1 sc1 where r1: "r1 = (st1, sc1)" by (cases r1)
  show ?thesis
  proof (cases "parseOperations sc1 st1")
    case (Inl p)
    with assms Inr r1 show ?thesis by (simp add: parseStatistics_def)
  next
    case (Inr r2)
    obtain st2 sc2 where r2: "r2 = (st2, sc2)" by (cases r2)
    from assms \<open>statLoop NewStatistics sc = Inr r1\<close> r1 Inr r2
    have "sc2 = sc' \<and> res = (case Err sc' of Some e \<Rightarrow> (None, Some e) | None \<Rightarrow> (Some st2, None))"
      by (cases "Err sc2") (auto simp: parseStatistics_def)
    with that [of st1 sc1 st2] \<open>statLoop NewStatistics sc = Inr r1\<close> r1 Inr r2
    show ?thesis by simp
  qed
qed

lemma parseStatistics_result:
  assumes "parseStatistics sc = Inr ((r, err), sc')"
  shows "(r = None \<and> err \<noteq> None) \<or> (err = None \<and> (\<exists>st. r = Some st \<and> Operation st \<noteq> None))"
proof -
  from assms obtain st1 sc1 st2 where
    a: "statLoop NewStatistics sc = Inr (st1, sc1)" and
    b: "parseOperations sc1 st1 = Inr (st2, sc')" and
    c: "(r, err) = (case Err sc' of Some e \<Rightarrow> (None, Some e) | None \<Rightarrow> (Some st2, None))"
    by (rule parseStatistics_Inr)
  have "Operation st1 \<noteq> None"
    using statLoop_Operation [OF a] by (simp add: NewStatistics_def)
  then have "Operation st2 \<noteq> None" by (rule parseOperations_Operation [OF b])
  with c show ?thesis by (cases "Err sc'") auto
qed

lemma parseLoop_runs [consumes 1, case_names End Skip Error Mount]:
  assumes run: "parseLoop nfsMounts scanner = Inr res"
    and atEnd: "\<And>acc sc sc1. Scan sc = (None, sc1) \<Longrightarrow> P acc sc (acc, Err sc1)"
    and atSkip: "\<And>acc sc line sc1 res. Scan sc = (Some line, sc1) \<Longrightarrow> \<not> headerLine line \<Longrightarrow>
       parseLoop acc sc1 = Inr res \<Longrightarrow> P acc sc1 res \<Longrightarrow> P acc sc res"
    and atError: "\<And>acc sc line sc1 r err sc2. Scan sc = (Some line, sc1) \<Longrightarrow>
       headerLine line \<Longrightarrow> parseStatistics sc1 = Inr ((r, Some err), sc2) \<Longrightarrow>
       P acc sc ([], Some err)"
    and atMount: "\<And>acc sc line sc1 st sc2 res. Scan sc = (Some line, sc1) \<Longrightarrow>
       headerLine line \<Longrightarrow> parseStatistics sc1 = Inr ((st, None), sc2) \<Longrightarrow>
       parseLoop (acc @ [mountRecord line st]) sc2 = Inr res \<Longrightarrow>
       P (acc @ [mountRecord line st]) sc2 res \<Longrightarrow> P acc sc res"
  shows "P nfsMounts scanner res"
  using run
proof (induction "length (pending scanner)" arbitrary: scanner nfsMounts rule: less_induct)
  case less
  obtain r sc1 where sc1: "Scan scanner = (r, sc1)" by (cases "Scan scanner")
  show ?case
  proof (cases r)
    case None
    with sc1 have s: "Scan scanner = (None, sc1)" by simp
    from less.prems atEnd [OF s, of nfsMounts] show ?thesis
      by (simp add: parseLoop_None [OF s])
  next
    case (Some l)
    with sc1 have s: "Scan scanner = (Some l, sc1)" by simp
    have shorter: "length (pending sc1) < length (pending scanner)"
      by (rule Scan_pending [OF s])
    show ?thesis
    proof (cases "headerLine l")
      case False
      from less.prems have r: "parseLoop nfsMounts sc1 = Inr res"
        by (simp add: parseLoop_skip [OF s False])
      have "P nfsMounts sc1 res" by (rule less.hyps [OF shorter r])
      then show ?thesis by (rule atSkip [OF s False r])
    next
      case True
      note unfold = parseLoop_header [OF s True, of nfsMounts]
      show ?thesis
      proof (cases "parseStatistics sc1")
        case (Inl p)
        with less.prems unfold show ?thesis by simp
      next
        case (Inr x)
        obtain st err sc2 where x: "x = ((st, err), sc2)" by (cases x) auto
        show ?thesis
        proof (cases err)
          case (Some e)
          with less.prems unfold Inr x have "res = ([], Some e)" by simp
          with atError [OF s True, of st e sc2 nfsMounts] Inr x Some show ?thesis by simp
        next
          case None
          with less.prems unfold Inr x
          have r: "parseLoop (nfsMounts @ [mountRecord l st]) sc2 = Inr res"
            by (simp add: mountRecord_def)
          have "length (pending sc2) \<le> length (pending sc1)"
            using parseStatistics_pending Inr x by blast
          with shorter have "length (pending sc2) < length (pending scanner)" by simp
          then have "P (nfsMounts @ [mountRecord l st]) sc2 res"
            using r by (rule less.hyps)
          with atMount [OF s True _ r] Inr x None show ?thesis by simp
        qed
      qed
    qed
  qed
qed

lemma parseLoop_result:
  assumes "parseLoop nfsMounts scanner = Inr res"
  shows "(fst res = [] \<and> snd res \<noteq> None)
         \<or> (\<exists>new. fst res = nfsMounts @ new \<and> (\<forall>m\<in>set new. goodMount m))"
  using assms
proof (induction rule: parseLoop_runs)
  case (End acc sc sc1)
  show ?case by simp
next
  case (Skip acc sc line sc1 res)
  then show ?case by simp
next
  case (Error acc sc line sc1 r err sc2)
  show ?case by simp
next
  case (Mount acc sc line sc1 st sc2 res)
  from parseStatistics_result [OF Mount(3)]
  have "goodMount (mountRecord line st)"
    by (auto simp: goodMount_def mountRecord_def)
  with Mount(5) show ?case by auto
qed

section \<open>Numeric tokens\<close>

text \<open>
  C6, as stated: a token that is not a valid unsigned 64-bit decimal gives the value zero.
  This fails for a decimal that is out of range: \<^verbatim>\<open>strconv.ParseUint\<close> reports a range
  error together with the value \<^verbatim>\<open>1<<64 - 1\<close>, and the parser drops the error and keeps
  the value. The token \<^verbatim>\<open>18446744073709551616\<close> (which is \<^verbatim>\<open>1<<64\<close>) is converted to
  \<^verbatim>\<open>18446744073709551615\<close>, in \<^verbatim>\<open>makeUint64\<close> and so in a counter of the mount returned.
\<close>

theorem out_of_range_token_is_not_zero:
  "snd (ParseUint ''18446744073709551616'') = Some ErrRange
   \<and> makeUint64 [''18446744073709551616''] = [18446744073709551615]
   \<and> (case Parse
              \<lparr>content = [''device srv:/a mounted on /a with fstype nfs statvers=1.1'',
                           ''bytes: 18446744073709551616 x 3 4 5 6 7 8''],
                cleanLines = 2, ending = (None :: unit option)\<rparr> of
         Inr ([m], None) \<Rightarrow>
           map_option (\<lambda>st. (NormalReadBytes (Byte st), NormalWriteBytes (Byte st)))
             (Statistics m) = Some (18446744073709551615, 0)
       | _ \<Rightarrow> False)"
  by code_simp

text \<open>
  C6, amended. Every numeric token is converted by \<^verbatim>\<open>strconv.ParseUint(token, 10, 64)\<close>
  with the error dropped: a non-empty token of decimal digits only, whose value is at
  most \<^verbatim>\<open>1<<64 - 1\<close>, gives that value; a token whose leading decimal digits already
  denote more than \<^verbatim>\<open>1<<64 - 1\<close> gives \<^verbatim>\<open>1<<64 - 1\<close>; every other token gives zero
  (this is \<open>converted\<close>). Whatever the tokens are, the line is not given up and the
  loop goes on with the next line: an \<^verbatim>\<open>age:\<close> line of two tokens or more sets the age
  to the value of its second token; a \<^verbatim>\<open>bytes:\<close> line of nine tokens, an \<^verbatim>\<open>events:\<close>
  line of 28 tokens and an \<^verbatim>\<open>xprt: tcp\<close> line of 15 tokens set every counter of their
  record to the value of its token; a line of nine tokens in the table of operations
  stores the values of its tokens 1 to 8 under the name of the operation.
\<close>

theorem numeric_conversion:
  assumes "Scan scanner = (Some line, scanner')" and "tokens = Fields line"
  shows "(\<forall>token. fst (ParseUint token) = converted token)
    \<and> (2 \<le> length tokens \<and> tokens ! 0 = ''age:'' \<longrightarrow>
         statLoop statistics scanner
           = statLoop (statistics\<lparr>Age := converted (tokens ! 1)\<rparr>) scanner')
    \<and> (length tokens = 9 \<and> tokens ! 0 = ''bytes:'' \<longrightarrow>
         statLoop statistics scanner
           = statLoop (statistics\<lparr>Byte := byteCounters (map converted (drop 1 tokens))\<rparr>)
               scanner')
    \<and> (length tokens = 28 \<and> tokens ! 0 = ''events:'' \<longrightarrow>
         statLoop statistics scanner
           = statLoop (statistics\<lparr>Event := eventCounters (map converted (drop 1 tokens))\<rparr>)
               scanner')
    \<and> (length tokens = 15 \<and> tokens ! 0 = ''xprt:'' \<and> tokens ! 1 = ''tcp'' \<longrightarrow>
         statLoop statistics scanner
           = statLoop
               (statistics\<lparr>Transport := transportCounters (map converted (drop 2 tokens))\<rparr>)
               scanner')
    \<and> (length tokens = 9 \<and> tokens ! 0 \<noteq> ''device'' \<and> Operation statistics = Some m \<longrightarrow>
         parseOperations scanner statistics
           = parseOperations scanner'
               (statistics\<lparr>Operation :=
                  Some (storeOperation (TrimSuffix (tokens ! 0) '':'')
                          (operationCounters (map converted (drop 1 tokens))) m)\<rparr>))"
proof (intro conjI allI impI)
  fix token
  show "fst (ParseUint token) = converted token" by (rule ParseUint_converted)
next
  assume "2 \<le> length tokens \<and> tokens ! 0 = ''age:''"
  then have "statLine statistics (Fields line)
      = Next (statistics\<lparr>Age := converted (tokens ! 1)\<rparr>)"
    using assms(2) by (auto simp: statLine_def ParseUint_converted)
  then show "statLoop statistics scanner
      = statLoop (statistics\<lparr>Age := converted (tokens ! 1)\<rparr>) scanner'"
    by (simp add: statLoop_Some [OF assms(1)])
next
  assume "length tokens = 9 \<and> tokens ! 0 = ''bytes:''"
  then have "statLine statistics (Fields line)
      = Next (statistics\<lparr>Byte := byteCounters (map converted (drop 1 tokens))\<rparr>)"
    using assms(2) by (auto simp: statLine_def makeUint64_converted)
  then show "statLoop statistics scanner
      = statLoop (statistics\<lparr>Byte := byteCounters (map converted (drop 1 tokens))\<rparr>) scanner'"
    by (simp add: statLoop_Some [OF assms(1)])
next
  assume "length tokens = 28 \<and> tokens ! 0 = ''events:''"
  then have "statLine statistics (Fields line)
      = Next (statistics\<lparr>Event := eventCounters (map converted (drop 1 tokens))\<rparr>)"
    using assms(2) by (auto simp: statLine_def makeUint64_converted)
  then show "statLoop statistics scanner
      = statLoop (statistics\<lparr>Event := eventCounters (map converted (drop 1 tokens))\<rparr>) scanner'"
    by (simp add: statLoop_Some [OF assms(1)])
next
  assume "length tokens = 15 \<and> tokens ! 0 = ''xprt:'' \<and> tokens ! 1 = ''tcp''"
  then have "statLine statistics (Fields line)
      = Next (statistics\<lparr>Transport := transportCounters (map converted (drop 2 tokens))\<rparr>)"
    using assms(2) by (auto simp: statLine_def makeUint64_converted)
  then show "statLoop statistics scanner
      = statLoop (statistics\<lparr>Transport := transportCounters (map converted (drop 2 tokens))\<rparr>)
          scanner'"
    by (simp add: statLoop_Some [OF assms(1)])
next
  assume "length tokens = 9 \<and> tokens ! 0 \<noteq> ''device'' \<and> Operation statistics = Some m"
  then have "opLine statistics (Fields line)
      = Next (statistics\<lparr>Operation :=
                  Some (storeOperation (TrimSuffix (tokens ! 0) '':'')
                          (operationCounters (map converted (drop 1 tokens))) m)\<rparr>)"
    using assms(2) by (auto simp: opLine_def makeUint64_converted)
  then show "parseOperations scanner statistics
           = parseOperations scanner'
               (statistics\<lparr>Operation :=
                  Some (storeOperation (TrimSuffix (tokens ! 0) '':'')
                          (operationCounters (map converted (drop 1 tokens))) m)\<rparr>)"
    by (simp add: parseOperations_Some [OF assms(1)])
qed

theorem numeric_conversion_witness:
  "converted ''18446744073709551615'' = 18446744073709551615
   \<and> converted ''18446744073709551616'' = 18446744073709551615
   \<and> converted ''12x'' = 0
   \<and> statLoop NewStatistics
       \<lparr>pending = [''age: 12x''], clean = 1, failure = (None :: unit option),
        ended = False, tooLong = False\<rparr>
     = statLoop (NewStatistics\<lparr>Age := 0\<rparr>)
         \<lparr>pending = [], clean = 0, failure = None, ended = False, tooLong = False\<rparr>
   \<and> statLoop NewStatistics
       \<lparr>pending = [''bytes: 18446744073709551616 x 3 4 5 6 7 8''], clean = 1,
        failure = (None :: unit option), ended = False, tooLong = False\<rparr>
     = statLoop
         (NewStatistics
            \<lparr>Byte := \<lparr>NormalReadBytes = 18446744073709551615, NormalWriteBytes = 0,
                      DirectReadBytes = 3, DirectWriteBytes = 4, ServerReadBytes = 5,
                      ServerWriteBytes = 6, ReadPages = 7, WritePages = 8\<rparr>\<rparr>)
         \<lparr>pending = [], clean = 0, failure = None, ended = False, tooLong = False\<rparr>
   \<and> parseOperations
       \<lparr>pending = [''READ: 1 -2 3 4 5 6 7 8''], clean = 1, failure = (None :: unit option),
        ended = False, tooLong = False\<rparr>
       NewStatistics
     = parseOperations
         \<lparr>pending = [], clean = 0, failure = None, ended = False, tooLong = False\<rparr>
         (NewStatistics
            \<lparr>Operation :=
               Some [(''READ'',
                      \<lparr>Requests = 1, Transmissions = 0, Timeouts = 3, BytesSent = 4,
                       BytesReceived = 5, TotalQueueTime = 6, TotalResponseTime = 7,
                       TotalExecutionTime = 8\<rparr>)]\<rparr>)"
proof -
  let ?end = "\<lparr>pending = [], clean = 0, failure = (None :: unit option), ended = False,
              tooLong = False\<rparr>"
  let ?age = "''age: 12x''"
  let ?bytes = "''bytes: 18446744073709551616 x 3 4 5 6 7 8''"
  let ?read = "''READ: 1 -2 3 4 5 6 7 8''"
  let ?scA = "\<lparr>pending = [?age], clean = 1, failure = (None :: unit option), ended = False,
              tooLong = False\<rparr>"
  let ?scB = "\<lparr>pending = [?bytes], clean = 1, failure = (None :: unit option), ended = False,
              tooLong = False\<rparr>"
  let ?scR = "\<lparr>pending = [?read], clean = 1, failure = (None :: unit option), ended = False,
              tooLong = False\<rparr>"
  have scanA: "Scan ?scA = (Some ?age, ?end)"
    by (simp add: Scan_def tokenTooLong_def MaxScanTokenSize_def dropCR_def)
  have scanB: "Scan ?scB = (Some ?bytes, ?end)"
    by (simp add: Scan_def tokenTooLong_def MaxScanTokenSize_def dropCR_def)
  have scanR: "Scan ?scR = (Some ?read, ?end)"
    by (simp add: Scan_def tokenTooLong_def MaxScanTokenSize_def dropCR_def)
  have tokA: "[''age:'', ''12x''] = Fields ?age" by code_simp
  have tokB: "[''bytes:'', ''18446744073709551616'', ''x'', ''3'', ''4'', ''5'', ''6'', ''7'',
               ''8''] = Fields ?bytes"
    by code_simp
  have tokR: "[''READ:'', ''1'', ''-2'', ''3'', ''4'', ''5'', ''6'', ''7'', ''8''] = Fields ?read"
    by code_simp
  note A = numeric_conversion [OF scanA tokA, of NewStatistics "[]"]
  note B = numeric_conversion [OF scanB tokB, of NewStatistics "[]"]
  note R = numeric_conversion [OF scanR tokR, of NewStatistics "[]"]
  from A have conv: "fst (ParseUint token) = converted token" for token by blast
  have "fst (ParseUint ''18446744073709551615'') = 18446744073709551615"
    and "fst (ParseUint ''18446744073709551616'') = 18446744073709551615"
    and "fst (ParseUint ''12x'') = 0" and "fst (ParseUint ''x'') = 0"
    and "fst (ParseUint ''-2'') = 0" and "fst (ParseUint ''1'') = 1"
    and "fst (ParseUint ''3'') = 3" and "fst (ParseUint ''4'') = 4"
    and "fst (ParseUint ''5'') = 5" and "fst (ParseUint ''6'') = 6"
    and "fst (ParseUint ''7'') = 7" and "fst (ParseUint ''8'') = 8"
    by code_simp+
  then have v: "converted ''18446744073709551615'' = 18446744073709551615"
    "converted ''18446744073709551616'' = 18446744073709551615"
    "converted ''12x'' = 0" "converted ''x'' = 0" "converted ''-2'' = 0" "converted ''1'' = 1"
    "converted ''3'' = 3" "converted ''4'' = 4" "converted ''5'' = 5" "converted ''6'' = 6"
    "converted ''7'' = 7" "converted ''8'' = 8"
    by (simp_all only: conv)
  have trim: "TrimSuffix ''READ:'' '':'' = ''READ''" by code_simp
  from A have a: "statLoop NewStatistics ?scA = statLoop (NewStatistics\<lparr>Age := 0\<rparr>) ?end"
    by (simp add: v)
  from B have b: "statLoop NewStatistics ?scB
      = statLoop
         (NewStatistics
            \<lparr>Byte := \<lparr>NormalReadBytes = 18446744073709551615, NormalWriteBytes = 0,
                      DirectReadBytes = 3, DirectWriteBytes = 4, ServerReadBytes = 5,
                      ServerWriteBytes = 6, ReadPages = 7, WritePages = 8\<rparr>\<rparr>) ?end"
    by (simp add: v byteCounters_def)
  have op: "Operation NewStatistics = Some []" by (simp add: NewStatistics_def)
  from R op have r: "parseOperations ?scR NewStatistics
      = parseOperations ?end
         (NewStatistics
            \<lparr>Operation :=
               Some [(''READ'',
                      \<lparr>Requests = 1, Transmissions = 0, Timeouts = 3, BytesSent = 4,
                       BytesReceived = 5, TotalQueueTime = 6, TotalResponseTime = 7,
                       TotalExecutionTime = 8\<rparr>)]\<rparr>)"
    by (simp add: v trim operationCounters_def storeOperation_def)
  from v(1,2,3) a b r show ?thesis by simp
qed

section \<open>Mount headers and the mounts returned\<close>

lemma parseLoop_extends:
  assumes "parseLoop nfsMounts scanner = Inr (ms, err)" "ms \<noteq> []"
  shows "\<exists>new. ms = nfsMounts @ new"
  using parseLoop_result [OF assms(1)] assms(2) by auto

lemma if_trueI: "c \<Longrightarrow> a \<Longrightarrow> (if c then a else b)"
  by simp

lemma if_falseI: "\<not> c \<Longrightarrow> b \<Longrightarrow> (if c then a else b)"
  by simp

text \<open>
  C5. The loop of \<^verbatim>\<open>Parse\<close> takes a line for a mount header exactly when the line has
  nine tokens, the first is \<^verbatim>\<open>device\<close>, the eighth is \<^verbatim>\<open>nfs\<close> or \<^verbatim>\<open>nfs4\<close> and the ninth is
  \<^verbatim>\<open>statvers=1.1\<close>. For such a line the statistics are parsed and a mount is appended
  with version 4 for \<^verbatim>\<open>nfs4\<close> and 3 otherwise, device the second token and mount point
  the fifth; in the slice returned, when it is not nil, that mount stands right after
  the mounts found before. Any other line is passed over: the result is that of the
  loop started at the next line.
\<close>

theorem mount_header_recognition:
  assumes "Scan scanner = (Some line, scanner')" and "tokens = Fields line"
  shows "if length tokens = 9 \<and> tokens ! 0 = ''device''
            \<and> (tokens ! 7 = ''nfs'' \<or> tokens ! 7 = ''nfs4'') \<and> tokens ! 8 = ''statvers=1.1''
         then parseLoop nfsMounts scanner =
                (case parseStatistics scanner' of
                   Inl p \<Rightarrow> Inl p
                 | Inr ((_, Some err), _) \<Rightarrow> Inr ([], Some err)
                 | Inr ((statistics, None), scanner'') \<Rightarrow>
                     parseLoop
                       (nfsMounts @
                          [\<lparr>Device = tokens ! 1, Mountpoint = tokens ! 4,
                            Statistics = statistics,
                            Version = (if tokens ! 7 = ''nfs4'' then 4 else 3)\<rparr>])
                       scanner'')
              \<and> (\<forall>ms err. parseLoop nfsMounts scanner = Inr (ms, err) \<and> ms \<noteq> [] \<longrightarrow>
                     length nfsMounts < length ms
                     \<and> Device (ms ! length nfsMounts) = tokens ! 1
                     \<and> Mountpoint (ms ! length nfsMounts) = tokens ! 4
                     \<and> Version (ms ! length nfsMounts) = (if tokens ! 7 = ''nfs4'' then 4 else 3))
         else parseLoop nfsMounts scanner = parseLoop nfsMounts scanner'"
proof -
  have c: "(length tokens = 9 \<and> tokens ! 0 = ''device''
            \<and> (tokens ! 7 = ''nfs'' \<or> tokens ! 7 = ''nfs4'') \<and> tokens ! 8 = ''statvers=1.1'')
           = headerLine line"
    by (simp add: headerLine_def Let_def assms(2))
  show ?thesis
  proof (cases "headerLine line")
    case False
    have "parseLoop nfsMounts scanner = parseLoop nfsMounts scanner'"
      by (rule parseLoop_skip [OF assms(1) False])
    moreover from False c
    have "\<not> (length tokens = 9 \<and> tokens ! 0 = ''device''
            \<and> (tokens ! 7 = ''nfs'' \<or> tokens ! 7 = ''nfs4'') \<and> tokens ! 8 = ''statvers=1.1'')"
      by blast
    ultimately show ?thesis
      by (rule if_falseI [rotated])
  next
    case True
    note unfold = parseLoop_header [OF assms(1) True, of nfsMounts]
    have out: "length nfsMounts < length ms
         \<and> Device (ms ! length nfsMounts) = tokens ! 1
         \<and> Mountpoint (ms ! length nfsMounts) = tokens ! 4
         \<and> Version (ms ! length nfsMounts) = (if tokens ! 7 = ''nfs4'' then 4 else 3)"
      if run: "parseLoop nfsMounts scanner = Inr (ms, err)" and ne: "ms \<noteq> []" for ms err
    proof (cases "parseStatistics scanner'")
      case (Inl p)
      with run unfold show ?thesis by simp
    next
      case (Inr x)
      obtain st e sc2 where x: "x = ((st, e), sc2)" by (cases x) auto
      show ?thesis
      proof (cases e)
        case (Some a)
        with run unfold Inr x ne show ?thesis by simp
      next
        case None
        let ?m = "\<lparr>Device = Fields line ! 1, Mountpoint = Fields line ! 4, Statistics = st,
                   Version = (if Fields line ! 7 = ''nfs4'' then 4 else 3)\<rparr>"
        from run unfold Inr x None
        have "parseLoop (nfsMounts @ [?m]) sc2 = Inr (ms, err)" by simp
        from parseLoop_extends [OF this ne] obtain new where "ms = (nfsMounts @ [?m]) @ new" ..
        then have "length nfsMounts < length ms" "ms ! length nfsMounts = ?m"
          by (simp_all add: nth_append)
        then show ?thesis by (simp add: assms(2))
      qed
    qed
    have eq: "parseLoop nfsMounts scanner =
                (case parseStatistics scanner' of
                   Inl p \<Rightarrow> Inl p
                 | Inr ((_, Some err), _) \<Rightarrow> Inr ([], Some err)
                 | Inr ((statistics, None), scanner'') \<Rightarrow>
                     parseLoop
                       (nfsMounts @
                          [\<lparr>Device = tokens ! 1, Mountpoint = tokens ! 4,
                            Statistics = statistics,
                            Version = (if tokens ! 7 = ''nfs4'' then 4 else 3)\<rparr>])
                       scanner'')"
      using unfold by (simp only: assms(2))
    from eq out have "parseLoop nfsMounts scanner =
                (case parseStatistics scanner' of
                   Inl p \<Rightarrow> Inl p
                 | Inr ((_, Some err), _) \<Rightarrow> Inr ([], Some err)
                 | Inr ((statistics, None), scanner'') \<Rightarrow>
                     parseLoop
                       (nfsMounts @
                          [\<lparr>Device = tokens ! 1, Mountpoint = tokens ! 4,
                            Statistics = statistics,
                            Version = (if tokens ! 7 = ''nfs4'' then 4 else 3)\<rparr>])
                       scanner'')
              \<and> (\<forall>ms err. parseLoop nfsMounts scanner = Inr (ms, err) \<and> ms \<noteq> [] \<longrightarrow>
                     length nfsMounts < length ms
                     \<and> Device (ms ! length nfsMounts) = tokens ! 1
                     \<and> Mountpoint (ms ! length nfsMounts) = tokens ! 4
                     \<and> Version (ms ! length nfsMounts) = (if tokens ! 7 = ''nfs4'' then 4 else 3))"
      by blast
    moreover from True c
    have "length tokens = 9 \<and> tokens ! 0 = ''device''
            \<and> (tokens ! 7 = ''nfs'' \<or> tokens ! 7 = ''nfs4'') \<and> tokens ! 8 = ''statvers=1.1''"
      by blast
    ultimately show ?thesis
      by (rule if_trueI [rotated])
  qed
qed

theorem mount_header_recognition_witness:
  "Scan (NewScanner \<lparr>content = [''device srv:/a mounted on /a with fstype nfs4 statvers=1.1'',
                                  ''per-op statistics'', ''READ: 1 2 3 4 5 6 7 8''],
                      cleanLines = 3, ending = (None :: unit option)\<rparr>)
     = (Some ''device srv:/a mounted on /a with fstype nfs4 statvers=1.1'',
        \<lparr>pending = [''per-op statistics'', ''READ: 1 2 3 4 5 6 7 8''], clean = 2,
         failure = None, ended = False, tooLong = False\<rparr>)
   \<and> (\<exists>ms err.
        parseLoop []
          (NewScanner \<lparr>content = [''device srv:/a mounted on /a with fstype nfs4 statvers=1.1'',
                                   ''per-op statistics'', ''READ: 1 2 3 4 5 6 7 8''],
                       cleanLines = 3, ending = (None :: unit option)\<rparr>) = Inr (ms, err)
        \<and> ms \<noteq> [] \<and> Device (ms ! 0) = ''srv:/a'' \<and> Mountpoint (ms ! 0) = ''/a''
        \<and> Version (ms ! 0) = 4)
   \<and> parseLoop []
        \<lparr>pending = [''device /dev/sda1 mounted on / with fstype ext4''], clean = 1,
         failure = (None :: unit option), ended = False,
         tooLong = False\<rparr>
     = parseLoop [] \<lparr>pending = [], clean = 0, failure = None, ended = False, tooLong = False\<rparr>
   \<and> (\<exists>ms err.
        parseLoop []
          \<lparr>pending = [''device srv:/a mounted on'' @ [CHR 0xC2, CHR 0xA0]
                        @ ''/a with fstype nfs statvers=1.1''],
           clean = 1, failure = (None :: unit option), ended = False, tooLong = False\<rparr>
          = Inr (ms, err)
        \<and> ms \<noteq> [] \<and> Device (ms ! 0) = ''srv:/a'' \<and> Mountpoint (ms ! 0) = ''/a''
        \<and> Version (ms ! 0) = 3)"
proof -
  let ?hdr = "''device srv:/a mounted on /a with fstype nfs4 statvers=1.1''"
  let ?sc = "NewScanner \<lparr>content = [?hdr, ''per-op statistics'', ''READ: 1 2 3 4 5 6 7 8''],
                        cleanLines = 3, ending = (None :: unit option)\<rparr>"
  let ?sc' = "\<lparr>pending = [''per-op statistics'', ''READ: 1 2 3 4 5 6 7 8''], clean = 2,
              failure = (None :: unit option), ended = False,
         tooLong = False\<rparr>"
  let ?tokens = "[''device'', ''srv:/a'', ''mounted'', ''on'', ''/a'', ''with'', ''fstype'',
                  ''nfs4'', ''statvers=1.1'']"
  have scan: "Scan ?sc = (Some ?hdr, ?sc')"
    by (simp add: Scan_def NewScanner_def tokenTooLong_def MaxScanTokenSize_def dropCR_def)
  have tokens: "?tokens = Fields ?hdr" by code_simp
  have "case parseLoop [] ?sc of Inl p \<Rightarrow> False | Inr (ms, err) \<Rightarrow> ms \<noteq> []"
    by code_simp
  then obtain ms err where run: "parseLoop [] ?sc = Inr (ms, err)" "ms \<noteq> []"
    by (auto split: sum.splits)
  from mount_header_recognition [OF scan tokens, of "[]"] run
  have first: "Device (ms ! 0) = ''srv:/a'' \<and> Mountpoint (ms ! 0) = ''/a'' \<and> Version (ms ! 0) = 4"
    by simp
  let ?other = "''device /dev/sda1 mounted on / with fstype ext4''"
  let ?sc2 = "\<lparr>pending = [?other], clean = 1, failure = (None :: unit option), ended = False,
         tooLong = False\<rparr>"
  let ?sc2' = "\<lparr>pending = [], clean = 0, failure = (None :: unit option), ended = False,
         tooLong = False\<rparr>"
  have scan2: "Scan ?sc2 = (Some ?other, ?sc2')"
    by (simp add: Scan_def tokenTooLong_def MaxScanTokenSize_def dropCR_def)
  have tokens2: "[''device'', ''/dev/sda1'', ''mounted'', ''on'', ''/'', ''with'', ''fstype'', ''ext4'']
      = Fields ?other" by code_simp
  from mount_header_recognition [OF scan2 tokens2, of "[]"]
  have skip: "parseLoop [] ?sc2 = parseLoop [] ?sc2'" by simp
  let ?nbsp = "''device srv:/a mounted on'' @ [CHR 0xC2, CHR 0xA0]
                 @ ''/a with fstype nfs statvers=1.1''"
  let ?sc3 = "\<lparr>pending = [?nbsp], clean = 1, failure = (None :: unit option), ended = False,
         tooLong = False\<rparr>"
  have scan3: "Scan ?sc3 = (Some ?nbsp, ?sc2')"
    by (simp add: Scan_def tokenTooLong_def MaxScanTokenSize_def dropCR_def)
  have tokens3: "[''device'', ''srv:/a'', ''mounted'', ''on'', ''/a'', ''with'', ''fstype'',
                  ''nfs'', ''statvers=1.1''] = Fields ?nbsp"
    by code_simp
  have "case parseLoop [] ?sc3 of Inl p \<Rightarrow> False | Inr (ms, err) \<Rightarrow> ms \<noteq> []"
    by code_simp
  then obtain ms3 err3 where run3: "parseLoop [] ?sc3 = Inr (ms3, err3)" "ms3 \<noteq> []"
    by (auto split: sum.splits)
  from mount_header_recognition [OF scan3 tokens3, of "[]"] run3
  have third: "Device (ms3 ! 0) = ''srv:/a'' \<and> Mountpoint (ms3 ! 0) = ''/a''
      \<and> Version (ms3 ! 0) = 3"
    by simp
  from scan run first skip run3 third show ?thesis by blast
qed

text \<open>
  C10. Every mount that \<^verbatim>\<open>Parse\<close> returns has a \<^verbatim>\<open>Statistics\<close> pointer that is not nil,
  whose \<^verbatim>\<open>Operation\<close> map is not nil, and has version 3 or 4.
\<close>

theorem returned_mounts_are_initialised:
  assumes "Parse reader = Inr (nfsMounts, err)"
  shows "\<forall>m\<in>set nfsMounts.
           (\<exists>statistics. Statistics m = Some statistics \<and> Operation statistics \<noteq> None)
           \<and> (Version m = 3 \<or> Version m = 4)"
proof -
  from assms have run: "parseLoop [] (NewScanner reader) = Inr (nfsMounts, err)"
    by (simp add: Parse_def)
  from parseLoop_result [OF run] have "\<forall>m\<in>set nfsMounts. goodMount m"
    by auto
  then show ?thesis by (simp add: goodMount_def)
qed


theorem returned_mounts_are_initialised_witness:
  "\<exists>m. Parse \<lparr>content = [''device srv:/a mounted on /a with fstype nfs statvers=1.1'',
                          ''per-op statistics'', ''READ: 1 2 3 4 5 6 7 8''],
              cleanLines = 3, ending = (None :: unit option)\<rparr> = Inr ([m], None)
       \<and> (\<exists>statistics. Statistics m = Some statistics \<and> Operation statistics \<noteq> None)
       \<and> (Version m = 3 \<or> Version m = 4)"
proof -
  let ?r = "\<lparr>content = [''device srv:/a mounted on /a with fstype nfs statvers=1.1'',
                        ''per-op statistics'', ''READ: 1 2 3 4 5 6 7 8''],
            cleanLines = 3, ending = (None :: unit option)\<rparr>"
  have "case Parse ?r of Inl p \<Rightarrow> False | Inr (ms, err) \<Rightarrow> length ms = 1 \<and> err = None"
    by code_simp
  then obtain m where run: "Parse ?r = Inr ([m], None)"
    by (auto split: sum.splits simp: length_Suc_conv)
  from returned_mounts_are_initialised [OF run] run show ?thesis by simp
qed

section \<open>The statistics block\<close>

lemma statLine_Stop: "(statLine st tokens = Stop) = (tokens = [] \<or> tokens ! 0 = ''per-op'')"
  by (simp add: statLine_def)

lemma statLine_Next_inBlock:
  "statLine st tokens = Next st' \<Longrightarrow> tokens \<noteq> [] \<and> tokens ! 0 \<noteq> ''per-op''"
  by (auto simp: statLine_def split: if_splits)

lemma statisticsBlock_Next:
  "Scan sc = (Some line, sc1) \<Longrightarrow> statLine st (Fields line) = Next st1 \<Longrightarrow>
   statisticsBlock (upcoming sc) = line # statisticsBlock (upcoming sc1)"
  by (auto simp: statisticsBlock_def Scan_Some(5) dest: statLine_Next_inBlock)

lemma statisticsBlock_Stop:
  "Scan sc = (Some line, sc1) \<Longrightarrow> statLine st (Fields line) = Stop \<Longrightarrow>
   statisticsBlock (upcoming sc) = []"
  by (auto simp: statisticsBlock_def Scan_Some(5) statLine_Stop)

lemma statisticsBlock_None:
  "Scan sc = (None, sc1) \<Longrightarrow> statisticsBlock (upcoming sc) = []"
  by (simp add: statisticsBlock_def Scan_None(4))

text \<open>
  Where the first loop of \<^verbatim>\<open>parseStatistics\<close> leaves the scanner: after the line that
  ends the block, unless the scanner has stopped at a line that is too long.
\<close>

lemma statLoop_rest:
  "statLoop st sc = Inr (st', sc') \<Longrightarrow> \<not> tooLong sc' \<Longrightarrow>
   upcoming sc' = drop (Suc (length (statisticsBlock (upcoming sc)))) (upcoming sc)"
proof (induction rule: statLoop_runs)
  case (End st sc sc1)
  from Scan_None_again(2) [OF End] Scan_None(4) [OF End(1)] show ?case by simp
next
  case (Stop st sc line sc1)
  from statisticsBlock_Stop [OF Stop(1,2)] Scan_Some(5) [OF Stop(1)] show ?case by simp
next
  case (Next st sc line sc1 st1 st' sc')
  from statisticsBlock_Next [OF Next(1,2)] Scan_Some(5) [OF Next(1)] Next.IH [OF Next.prems]
  show ?case by simp
qed

lemma statLoop_tooLong:
  "statLoop st sc = Inr (st', sc') \<Longrightarrow> tooLong sc \<Longrightarrow> tooLong sc'"
  by (induction rule: statLoop_runs) (auto dest: Scan_tooLong)

lemma parseOperations_tooLong:
  "parseOperations sc st = Inr (st', sc') \<Longrightarrow> tooLong sc \<Longrightarrow> tooLong sc'"
  by (induction rule: parseOperations_runs) (auto dest: Scan_tooLong)

lemma statLine_Byte:
  "statLine st tokens = Next st' \<Longrightarrow> \<not> (tokens ! 0 = ''bytes:'' \<and> length tokens = 9) \<Longrightarrow>
   Byte st' = Byte st"
  by (auto simp: statLine_def split: if_splits)

lemma statLine_Transport:
  "statLine st tokens = Next st' \<Longrightarrow>
   \<not> (tokens ! 0 = ''xprt:'' \<and> tokens ! 1 = ''tcp'' \<and> length tokens = 15) \<Longrightarrow>
   Transport st' = Transport st"
  by (auto simp: statLine_def split: if_splits)

lemma statLoop_Byte:
  "statLoop st sc = Inr (st', sc') \<Longrightarrow>
   \<forall>line\<in>set (statisticsBlock (upcoming sc)).
      \<not> (Fields line ! 0 = ''bytes:'' \<and> length (Fields line) = 9) \<Longrightarrow>
   Byte st' = Byte st"
proof (induction rule: statLoop_runs)
  case (End st sc sc1)
  show ?case by simp
next
  case (Stop st sc line sc1)
  show ?case by simp
next
  case (Next st sc line sc1 st1 st' sc')
  from Next.prems statisticsBlock_Next [OF Next.hyps(1,2)]
  have here: "\<not> (Fields line ! 0 = ''bytes:'' \<and> length (Fields line) = 9)"
    and later: "\<forall>line\<in>set (statisticsBlock (upcoming sc1)).
      \<not> (Fields line ! 0 = ''bytes:'' \<and> length (Fields line) = 9)"
    by simp_all
  from statLine_Byte [OF Next.hyps(2) here] Next.IH [OF later] show ?case by simp
qed

lemma statLoop_Transport:
  "statLoop st sc = Inr (st', sc') \<Longrightarrow>
   \<forall>line\<in>set (statisticsBlock (upcoming sc)).
      \<not> (Fields line ! 0 = ''xprt:'' \<and> Fields line ! 1 = ''tcp'' \<and> length (Fields line) = 15) \<Longrightarrow>
   Transport st' = Transport st"
proof (induction rule: statLoop_runs)
  case (End st sc sc1)
  show ?case by simp
next
  case (Stop st sc line sc1)
  show ?case by simp
next
  case (Next st sc line sc1 st1 st' sc')
  from Next.prems statisticsBlock_Next [OF Next.hyps(1,2)]
  have here: "\<not> (Fields line ! 0 = ''xprt:'' \<and> Fields line ! 1 = ''tcp'' \<and> length (Fields line) = 15)"
    and later: "\<forall>line\<in>set (statisticsBlock (upcoming sc1)).
      \<not> (Fields line ! 0 = ''xprt:'' \<and> Fields line ! 1 = ''tcp'' \<and> length (Fields line) = 15)"
    by simp_all
  from statLine_Transport [OF Next.hyps(2) here] Next.IH [OF later] show ?case by simp
qed

lemma opLine_frame:
  "opLine st tokens = Next st' \<Longrightarrow>
   Byte st' = Byte st \<and> Transport st' = Transport st \<and> Age st' = Age st \<and> Event st' = Event st"
  by (auto simp: opLine_def split: if_splits option.splits)

lemma parseOperations_frame:
  "parseOperations sc st = Inr (st', sc') \<Longrightarrow>
   Byte st' = Byte st \<and> Transport st' = Transport st \<and> Age st' = Age st \<and> Event st' = Event st"
  by (induction rule: parseOperations_runs) (auto dest: opLine_frame)

lemma parseStatistics_Byte:
  assumes "parseStatistics sc = Inr ((Some st, err), sc')"
    and "\<forall>line\<in>set (statisticsBlock (upcoming sc)).
      \<not> (Fields line ! 0 = ''bytes:'' \<and> length (Fields line) = 9)"
  shows "Byte st = zeroByteCounters"
proof -
  from assms(1) obtain st1 sc1 st2 where
    a: "statLoop NewStatistics sc = Inr (st1, sc1)" and
    b: "parseOperations sc1 st1 = Inr (st2, sc')" and
    c: "(Some st, err) = (case Err sc' of Some e \<Rightarrow> (None, Some e) | None \<Rightarrow> (Some st2, None))"
    by (rule parseStatistics_Inr)
  from c have "st = st2" by (cases "Err sc'") auto
  with statLoop_Byte [OF a assms(2)] parseOperations_frame [OF b] show ?thesis
    by (simp add: NewStatistics_def)
qed

lemma parseStatistics_Transport:
  assumes "parseStatistics sc = Inr ((Some st, err), sc')"
    and "\<forall>line\<in>set (statisticsBlock (upcoming sc)).
      \<not> (Fields line ! 0 = ''xprt:'' \<and> Fields line ! 1 = ''tcp'' \<and> length (Fields line) = 15)"
  shows "Transport st = zeroTransportCounters"
proof -
  from assms(1) obtain st1 sc1 st2 where
    a: "statLoop NewStatistics sc = Inr (st1, sc1)" and
    b: "parseOperations sc1 st1 = Inr (st2, sc')" and
    c: "(Some st, err) = (case Err sc' of Some e \<Rightarrow> (None, Some e) | None \<Rightarrow> (Some st2, None))"
    by (rule parseStatistics_Inr)
  from c have "st = st2" by (cases "Err sc'") auto
  with statLoop_Transport [OF a assms(2)] parseOperations_frame [OF b] show ?thesis
    by (simp add: NewStatistics_def)
qed

text \<open>The mount appended for a header, as found in the slice returned.\<close>

lemma parseLoop_mount:
  assumes scan: "Scan scanner = (Some header, scanner1)" and hdr: "headerLine header"
    and run: "parseLoop nfsMounts scanner = Inr (ms, err)" and ne: "ms \<noteq> []"
  obtains st scanner2 where
    "parseStatistics scanner1 = Inr ((Some st, None), scanner2)"
    "length nfsMounts < length ms"
    "ms ! length nfsMounts = mountRecord header (Some st)"
proof (cases "parseStatistics scanner1")
  case (Inl p)
  with run parseLoop_header [OF scan hdr, of nfsMounts] show ?thesis by simp
next
  case (Inr x)
  obtain r e sc2 where x: "x = ((r, e), sc2)" by (cases x) auto
  show ?thesis
  proof (cases e)
    case (Some a)
    with run parseLoop_header [OF scan hdr, of nfsMounts] Inr x ne show ?thesis by simp
  next
    case None
    with parseStatistics_result [of scanner1 r e sc2] Inr x
    obtain st where r: "r = Some st" by auto
    from run parseLoop_header [OF scan hdr, of nfsMounts] Inr x None r
    have "parseLoop (nfsMounts @ [mountRecord header (Some st)]) sc2 = Inr (ms, err)"
      by (simp add: mountRecord_def)
    from parseLoop_extends [OF this ne]
    obtain new where "ms = (nfsMounts @ [mountRecord header (Some st)]) @ new" ..
    then have "length nfsMounts < length ms" "ms ! length nfsMounts = mountRecord header (Some st)"
      by (simp_all add: nth_append)
    with that [of st sc2] Inr x None r show ?thesis by simp
  qed
qed

section \<open>The table of operations\<close>

lemma storeOperation_keys:
  "map fst (storeOperation k v m) =
     (if k \<in> set (map fst m) then map fst m else map fst m @ [k])"
  by (induction m) (auto simp: storeOperation_def split: if_splits)

lemma storeOperation_distinct:
  "distinct (map fst m) \<Longrightarrow> distinct (map fst (storeOperation k v m))"
  by (simp add: storeOperation_keys)

lemma map_of_replace_other:
  "name \<noteq> k \<Longrightarrow>
   map_of (map (\<lambda>(k', v'). if k' = k then (k', v) else (k', v')) m) name = map_of m name"
  by (induction m) auto

lemma map_of_replace_same:
  "k \<in> set (map fst m) \<Longrightarrow>
   map_of (map (\<lambda>(k', v'). if k' = k then (k', v) else (k', v')) m) k = Some v"
  by (induction m) auto

lemma storeOperation_lookup:
  "map_of (storeOperation k v m) name = (if name = k then Some v else map_of m name)"
proof (cases "k \<in> set (map fst m)")
  case True
  then show ?thesis by (simp add: storeOperation_def map_of_replace_other map_of_replace_same)
next
  case False
  then have "map_of m k = None" by (simp add: map_of_eq_None_iff)
  with False show ?thesis
    by (auto simp: storeOperation_def map_add_def split: option.splits)
qed

lemma parseOperations_table:
  assumes "Operation statistics = Some m" "distinct (map fst m)"
  shows "\<exists>statistics' scanner' m'.
           parseOperations scanner statistics = Inr (statistics', scanner')
           \<and> Operation statistics' = Some m' \<and> distinct (map fst m')
           \<and> (\<forall>opName. map_of m' opName =
                 (let ls = filter (operationLine opName) (operationTable (upcoming scanner))
                  in if ls = [] then map_of m opName else Some (countersOf (last ls))))"
  using assms
proof (induction scanner arbitrary: statistics m rule: Scan_induct)
  case (Scan scanner)
  obtain r sc1 where sc1: "Scan scanner = (r, sc1)" by (cases "Scan scanner")
  show ?case
  proof (cases r)
    case None
    with sc1 have s: "Scan scanner = (None, sc1)" by simp
    from Scan.prems show ?thesis
      by (simp add: parseOperations_None [OF s] Scan_None(4) [OF s] operationTable_def)
  next
    case (Some l)
    with sc1 have s: "Scan scanner = (Some l, sc1)" by simp
    note unfold = parseOperations_Some [OF s, of statistics]
    note pend = Scan_Some(5) [OF s]
    show ?thesis
    proof (cases "length (Fields l) = 0 \<or> Fields l ! 0 = ''device''")
      case True
      then have "opLine statistics (Fields l) = Stop" by (simp add: opLine_def)
      moreover from True have "operationTable (l # upcoming sc1) = []"
        by (auto simp: operationTable_def)
      ultimately show ?thesis using Scan.prems unfold by (simp add: pend)
    next
      case inTable: False
      then have table: "operationTable (l # upcoming sc1) = l # operationTable (upcoming sc1)"
        by (auto simp: operationTable_def)
      show ?thesis
      proof (cases "length (Fields l) = 9")
        case False
        with inTable have "opLine statistics (Fields l) = Next statistics"
          by (simp add: opLine_def)
        moreover from False have "\<not> operationLine opName l" for opName
          by (simp add: operationLine_def)
        ultimately show ?thesis
          using Scan.IH [OF s Scan.prems] unfold
          by (simp add: pend table)
      next
        case True
        let ?k = "TrimSuffix (Fields l ! 0) '':''"
        let ?m1 = "storeOperation ?k (countersOf l) m"
        let ?st1 = "statistics\<lparr>Operation := Some ?m1\<rparr>"
        from True inTable Scan.prems(1) have step: "opLine statistics (Fields l) = Next ?st1"
          by (simp add: opLine_def countersOf_def)
        have "Operation ?st1 = Some ?m1" by simp
        moreover have "distinct (map fst ?m1)"
          using Scan.prems(2) by (rule storeOperation_distinct)
        ultimately obtain st' sc' m' where
          run: "parseOperations sc1 ?st1 = Inr (st', sc')" and
          op: "Operation st' = Some m'" "distinct (map fst m')" and
          look: "\<And>opName. map_of m' opName =
                   (let ls = filter (operationLine opName) (operationTable (upcoming sc1))
                    in if ls = [] then map_of ?m1 opName else Some (countersOf (last ls)))"
          using Scan.IH [OF s, of ?st1 ?m1] by blast
        have "map_of m' opName =
                   (let ls = filter (operationLine opName) (operationTable (upcoming scanner))
                    in if ls = [] then map_of m opName else Some (countersOf (last ls)))"
          for opName
          using look [of opName] True
          by (auto simp: pend table Let_def storeOperation_lookup operationLine_def)
        with run op step unfold show ?thesis by simp
      qed
    qed
  qed
qed

text \<open>
  C7. \<^verbatim>\<open>parseOperations\<close>, started with a map of distinct keys, returns a map of distinct
  keys; an operation name with lines in the table is mapped to the counters of the last
  of them, and any other name is mapped as before. For the statistics of a mount, whose
  map starts empty, the table is what follows the statistics block. The lines are those
  the scanner delivers.
\<close>

theorem last_operation_line_wins:
  "(\<forall>m. Operation statistics = Some m \<and> distinct (map fst m) \<longrightarrow>
      (\<exists>statistics' scanner' m'.
          parseOperations scanner statistics = Inr (statistics', scanner')
          \<and> Operation statistics' = Some m' \<and> distinct (map fst m')
          \<and> (\<forall>opName. map_of m' opName =
                (let ls = filter (operationLine opName) (operationTable (upcoming scanner))
                 in if ls = [] then map_of m opName else Some (countersOf (last ls))))))
   \<and> (\<forall>st err scanner'. parseStatistics scanner = Inr ((Some st, err), scanner') \<longrightarrow>
        (\<exists>m'. Operation st = Some m' \<and> distinct (map fst m')
          \<and> (\<forall>opName. map_of m' opName =
                (let ls = filter (operationLine opName)
                            (operationTable
                               (drop (Suc (length (statisticsBlock (upcoming scanner))))
                                  (upcoming scanner)))
                 in if ls = [] then None else Some (countersOf (last ls))))))"
proof (intro conjI allI impI)
  fix m
  assume "Operation statistics = Some m \<and> distinct (map fst m)"
  then show "\<exists>statistics' scanner' m'.
          parseOperations scanner statistics = Inr (statistics', scanner')
          \<and> Operation statistics' = Some m' \<and> distinct (map fst m')
          \<and> (\<forall>opName. map_of m' opName =
                (let ls = filter (operationLine opName) (operationTable (upcoming scanner))
                 in if ls = [] then map_of m opName else Some (countersOf (last ls))))"
    using parseOperations_table [of statistics m scanner] by blast
next
  fix st err scanner'
  assume "parseStatistics scanner = Inr ((Some st, err), scanner')"
  then obtain st1 sc1 st2 where
    a: "statLoop NewStatistics scanner = Inr (st1, sc1)" and
    b: "parseOperations sc1 st1 = Inr (st2, scanner')" and
    c: "(Some st, err) = (case Err scanner' of Some e \<Rightarrow> (None, Some e) | None \<Rightarrow> (Some st2, None))"
    by (rule parseStatistics_Inr)
  from c have st: "st = st2" and "Err scanner' = None" by (cases "Err scanner'"; simp)+
  then have "\<not> tooLong scanner'" by (auto simp: Err_def split: if_splits)
  with parseOperations_tooLong [OF b] have short: "\<not> tooLong sc1" by blast
  have op1: "Operation st1 = Some []"
    using statLoop_Operation [OF a] by (simp add: NewStatistics_def)
  from parseOperations_table [of st1 "[]" sc1] op1 b statLoop_rest [OF a short] st
  show "\<exists>m'. Operation st = Some m' \<and> distinct (map fst m')
          \<and> (\<forall>opName. map_of m' opName =
                (let ls = filter (operationLine opName)
                            (operationTable
                               (drop (Suc (length (statisticsBlock (upcoming scanner))))
                                  (upcoming scanner)))
                 in if ls = [] then None else Some (countersOf (last ls))))"
    by (auto simp: Let_def)
qed

theorem last_operation_line_wins_witness:
  "\<exists>statistics' scanner' m'.
     parseOperations
       \<lparr>pending = [''READ: 1 2 3 4 5 6 7 8'', ''WRITE: 2 2 2 2 2 2 2 2'', ''bad line'',
                   ''READ: 9 10 11 12 13 14 15 16'', '''', ''READ: 0 0 0 0 0 0 0 0''],
        clean = 6, failure = (None :: unit option), ended = False,
        tooLong = False\<rparr>
       NewStatistics = Inr (statistics', scanner')
     \<and> Operation statistics' = Some m' \<and> distinct (map fst m')
     \<and> map_of m' ''READ'' =
         Some \<lparr>Requests = 9, Transmissions = 10, Timeouts = 11, BytesSent = 12,
               BytesReceived = 13, TotalQueueTime = 14, TotalResponseTime = 15,
               TotalExecutionTime = 16\<rparr>"
proof -
  let ?sc = "\<lparr>pending = [''READ: 1 2 3 4 5 6 7 8'', ''WRITE: 2 2 2 2 2 2 2 2'', ''bad line'',
                   ''READ: 9 10 11 12 13 14 15 16'', '''', ''READ: 0 0 0 0 0 0 0 0''],
        clean = 6, failure = (None :: unit option), ended = False,
        tooLong = False\<rparr>"
  have start: "Operation NewStatistics = Some [] \<and> distinct (map fst ([] :: (string \<times> OperationCounters) list))"
    by (simp add: NewStatistics_def)
  have table: "(let ls = filter (operationLine ''READ'') (operationTable (upcoming ?sc))
                 in if ls = [] then map_of [] ''READ'' else Some (countersOf (last ls)))
      = Some \<lparr>Requests = 9, Transmissions = 10, Timeouts = 11, BytesSent = 12,
               BytesReceived = 13, TotalQueueTime = 14, TotalResponseTime = 15,
               TotalExecutionTime = 16\<rparr>"
    by code_simp
  from last_operation_line_wins [of NewStatistics ?sc] start
  obtain statistics' scanner' m' where
    "parseOperations ?sc NewStatistics = Inr (statistics', scanner')"
    "Operation statistics' = Some m'" "distinct (map fst m')"
    "\<And>opName. map_of m' opName =
                (let ls = filter (operationLine opName) (operationTable (upcoming ?sc))
                 in if ls = [] then map_of [] opName else Some (countersOf (last ls)))"
    by blast
  with table show ?thesis by metis
qed

section \<open>Lines of the statistics block that set nothing\<close>

text \<open>
  C8. In a statistics block a \<^verbatim>\<open>bytes:\<close> line of fewer than nine tokens is passed over:
  the loop goes on with the next line and the statistics unchanged. When every \<^verbatim>\<open>bytes:\<close>
  line of a mount's block is such a line, the byte counters of the mount returned are
  all zero.
\<close>

theorem short_bytes_line_is_ignored:
  "(Scan scanner = (Some line, scanner') \<and> Fields line \<noteq> [] \<and> Fields line ! 0 = ''bytes:''
      \<and> length (Fields line) < 9
    \<longrightarrow> statLoop statistics scanner = statLoop statistics scanner')
   \<and> (Scan scanner0 = (Some header, scanner1) \<and> headerLine header
       \<and> (\<forall>l\<in>set (statisticsBlock (upcoming scanner1)).
              Fields l ! 0 = ''bytes:'' \<longrightarrow> length (Fields l) < 9)
       \<and> parseLoop nfsMounts scanner0 = Inr (ms, err) \<and> ms \<noteq> []
    \<longrightarrow> (\<exists>st. Statistics (ms ! length nfsMounts) = Some st \<and> Byte st = zeroByteCounters))"
proof (intro conjI impI)
  assume a: "Scan scanner = (Some line, scanner') \<and> Fields line \<noteq> [] \<and> Fields line ! 0 = ''bytes:''
      \<and> length (Fields line) < 9"
  then have "statLine statistics (Fields line) = Next statistics"
    by (simp add: statLine_def)
  with a show "statLoop statistics scanner = statLoop statistics scanner'"
    by (simp add: statLoop_Some)
next
  assume a: "Scan scanner0 = (Some header, scanner1) \<and> headerLine header
       \<and> (\<forall>l\<in>set (statisticsBlock (upcoming scanner1)).
              Fields l ! 0 = ''bytes:'' \<longrightarrow> length (Fields l) < 9)
       \<and> parseLoop nfsMounts scanner0 = Inr (ms, err) \<and> ms \<noteq> []"
  then obtain st scanner2 where
    ps: "parseStatistics scanner1 = Inr ((Some st, None), scanner2)" and
    m: "ms ! length nfsMounts = mountRecord header (Some st)"
    by (elim conjE parseLoop_mount)
  from a have "\<forall>l\<in>set (statisticsBlock (upcoming scanner1)).
      \<not> (Fields l ! 0 = ''bytes:'' \<and> length (Fields l) = 9)"
    by auto
  from parseStatistics_Byte [OF ps this] m
  show "\<exists>st. Statistics (ms ! length nfsMounts) = Some st \<and> Byte st = zeroByteCounters"
    by (simp add: mountRecord_def)
qed

theorem short_bytes_line_is_ignored_witness:
  "statLoop NewStatistics
     \<lparr>pending = [''bytes: 1 2 3'', ''age: 5'', ''per-op statistics''], clean = 3,
      failure = (None :: unit option), ended = False, tooLong = False\<rparr>
   = statLoop NewStatistics
       \<lparr>pending = [''age: 5'', ''per-op statistics''], clean = 2,
        failure = (None :: unit option), ended = False, tooLong = False\<rparr>
   \<and> (\<exists>ms err st.
        parseLoop []
          \<lparr>pending = [''device srv:/a mounted on /a with fstype nfs statvers=1.1'',
                      ''bytes: 1 2 3'', ''age: 5'', ''per-op statistics'',
                      ''READ: 1 2 3 4 5 6 7 8''],
           clean = 5, failure = (None :: unit option), ended = False, tooLong = False\<rparr> = Inr (ms, err)
        \<and> ms \<noteq> [] \<and> Statistics (ms ! 0) = Some st \<and> Byte st = zeroByteCounters
        \<and> Age st = 5)"
proof -
  let ?hdr = "''device srv:/a mounted on /a with fstype nfs statvers=1.1''"
  let ?b = "\<lparr>pending = [''bytes: 1 2 3'', ''age: 5'', ''per-op statistics''], clean = 3,
      failure = (None :: unit option), ended = False, tooLong = False\<rparr>"
  let ?b' = "\<lparr>pending = [''age: 5'', ''per-op statistics''], clean = 2,
        failure = (None :: unit option), ended = False, tooLong = False\<rparr>"
  let ?sc = "\<lparr>pending = [?hdr, ''bytes: 1 2 3'', ''age: 5'', ''per-op statistics'',
                      ''READ: 1 2 3 4 5 6 7 8''],
           clean = 5, failure = (None :: unit option), ended = False, tooLong = False\<rparr>"
  let ?sc1 = "\<lparr>pending = [''bytes: 1 2 3'', ''age: 5'', ''per-op statistics'',
                      ''READ: 1 2 3 4 5 6 7 8''],
           clean = 4, failure = (None :: unit option), ended = False, tooLong = False\<rparr>"
  have h1: "Scan ?b = (Some ''bytes: 1 2 3'', ?b') \<and> Fields ''bytes: 1 2 3'' \<noteq> []
      \<and> Fields ''bytes: 1 2 3'' ! 0 = ''bytes:'' \<and> length (Fields ''bytes: 1 2 3'') < 9"
    by code_simp
  have h2: "Scan ?sc = (Some ?hdr, ?sc1) \<and> headerLine ?hdr
      \<and> (\<forall>l\<in>set (statisticsBlock (upcoming ?sc1)).
              Fields l ! 0 = ''bytes:'' \<longrightarrow> length (Fields l) < 9)"
    by code_simp
  have "case parseLoop [] ?sc of Inl p \<Rightarrow> False
        | Inr (ms, err) \<Rightarrow> ms \<noteq> [] \<and> map_option Age (Statistics (ms ! 0)) = Some 5"
    by code_simp
  then obtain ms err where run: "parseLoop [] ?sc = Inr (ms, err)" "ms \<noteq> []"
    "map_option Age (Statistics (ms ! 0)) = Some 5"
    by (auto split: sum.splits)
  note t = short_bytes_line_is_ignored [of ?b "''bytes: 1 2 3''" ?b' NewStatistics ?sc ?hdr ?sc1 "[]" ms err]
  from t h1 have skip: "statLoop NewStatistics ?b = statLoop NewStatistics ?b'" by blast
  from t h2 run obtain st where "Statistics (ms ! 0) = Some st" "Byte st = zeroByteCounters"
    by auto
  with run skip show ?thesis by auto
qed

text \<open>
  C9. In a statistics block an \<^verbatim>\<open>xprt:\<close> line whose second token is not \<^verbatim>\<open>tcp\<close> is passed
  over. When every \<^verbatim>\<open>xprt:\<close> line of a mount's block is such a line, the transport
  counters of the mount returned are all zero.
\<close>

theorem non_tcp_xprt_line_is_ignored:
  "(Scan scanner = (Some line, scanner') \<and> 2 \<le> length (Fields line)
      \<and> Fields line ! 0 = ''xprt:'' \<and> Fields line ! 1 \<noteq> ''tcp''
    \<longrightarrow> statLoop statistics scanner = statLoop statistics scanner')
   \<and> (Scan scanner0 = (Some header, scanner1) \<and> headerLine header
       \<and> (\<forall>l\<in>set (statisticsBlock (upcoming scanner1)).
              Fields l ! 0 = ''xprt:'' \<longrightarrow> 2 \<le> length (Fields l) \<and> Fields l ! 1 \<noteq> ''tcp'')
       \<and> parseLoop nfsMounts scanner0 = Inr (ms, err) \<and> ms \<noteq> []
    \<longrightarrow> (\<exists>st. Statistics (ms ! length nfsMounts) = Some st
              \<and> Transport st = zeroTransportCounters))"
proof (intro conjI impI)
  assume a: "Scan scanner = (Some line, scanner') \<and> 2 \<le> length (Fields line)
      \<and> Fields line ! 0 = ''xprt:'' \<and> Fields line ! 1 \<noteq> ''tcp''"
  then have "Fields line \<noteq> []" by auto
  with a have "statLine statistics (Fields line) = Next statistics"
    by (simp add: statLine_def)
  with a show "statLoop statistics scanner = statLoop statistics scanner'"
    by (simp add: statLoop_Some)
next
  assume a: "Scan scanner0 = (Some header, scanner1) \<and> headerLine header
       \<and> (\<forall>l\<in>set (statisticsBlock (upcoming scanner1)).
              Fields l ! 0 = ''xprt:'' \<longrightarrow> 2 \<le> length (Fields l) \<and> Fields l ! 1 \<noteq> ''tcp'')
       \<and> parseLoop nfsMounts scanner0 = Inr (ms, err) \<and> ms \<noteq> []"
  then obtain st scanner2 where
    ps: "parseStatistics scanner1 = Inr ((Some st, None), scanner2)" and
    m: "ms ! length nfsMounts = mountRecord header (Some st)"
    by (elim conjE parseLoop_mount)
  from a have "\<forall>l\<in>set (statisticsBlock (upcoming scanner1)).
      \<not> (Fields l ! 0 = ''xprt:'' \<and> Fields l ! 1 = ''tcp'' \<and> length (Fields l) = 15)"
    by auto
  from parseStatistics_Transport [OF ps this] m
  show "\<exists>st. Statistics (ms ! length nfsMounts) = Some st \<and> Transport st = zeroTransportCounters"
    by (simp add: mountRecord_def)
qed

theorem non_tcp_xprt_line_is_ignored_witness:
  "statLoop NewStatistics
     \<lparr>pending = [''xprt: udp 800 1 1 0 0 10 10 0 0 0 1 0'', ''age: 5'', ''per-op statistics''],
      clean = 3, failure = (None :: unit option), ended = False, tooLong = False\<rparr>
   = statLoop NewStatistics
       \<lparr>pending = [''age: 5'', ''per-op statistics''], clean = 2,
        failure = (None :: unit option), ended = False, tooLong = False\<rparr>
   \<and> (\<exists>ms err st.
        parseLoop []
          \<lparr>pending = [''device srv:/a mounted on /a with fstype nfs statvers=1.1'',
                      ''xprt: udp 800 1 1 0 0 10 10 0 0 0 1 0'', ''age: 5'',
                      ''per-op statistics'', ''READ: 1 2 3 4 5 6 7 8''],
           clean = 5, failure = (None :: unit option), ended = False, tooLong = False\<rparr> = Inr (ms, err)
        \<and> ms \<noteq> [] \<and> Statistics (ms ! 0) = Some st \<and> Transport st = zeroTransportCounters
        \<and> Age st = 5)"
proof -
  let ?hdr = "''device srv:/a mounted on /a with fstype nfs statvers=1.1''"
  let ?x = "''xprt: udp 800 1 1 0 0 10 10 0 0 0 1 0''"
  let ?b = "\<lparr>pending = [?x, ''age: 5'', ''per-op statistics''], clean = 3,
      failure = (None :: unit option), ended = False, tooLong = False\<rparr>"
  let ?b' = "\<lparr>pending = [''age: 5'', ''per-op statistics''], clean = 2,
        failure = (None :: unit option), ended = False, tooLong = False\<rparr>"
  let ?sc = "\<lparr>pending = [?hdr, ?x, ''age: 5'', ''per-op statistics'',
                      ''READ: 1 2 3 4 5 6 7 8''],
           clean = 5, failure = (None :: unit option), ended = False, tooLong = False\<rparr>"
  let ?sc1 = "\<lparr>pending = [?x, ''age: 5'', ''per-op statistics'',
                      ''READ: 1 2 3 4 5 6 7 8''],
           clean = 4, failure = (None :: unit option), ended = False, tooLong = False\<rparr>"
  have h1: "Scan ?b = (Some ?x, ?b') \<and> 2 \<le> length (Fields ?x)
      \<and> Fields ?x ! 0 = ''xprt:'' \<and> Fields ?x ! 1 \<noteq> ''tcp''"
    by code_simp
  have h2: "Scan ?sc = (Some ?hdr, ?sc1) \<and> headerLine ?hdr
      \<and> (\<forall>l\<in>set (statisticsBlock (upcoming ?sc1)).
              Fields l ! 0 = ''xprt:'' \<longrightarrow> 2 \<le> length (Fields l) \<and> Fields l ! 1 \<noteq> ''tcp'')"
    by code_simp
  have "case parseLoop [] ?sc of Inl p \<Rightarrow> False
        | Inr (ms, err) \<Rightarrow> ms \<noteq> [] \<and> map_option Age (Statistics (ms ! 0)) = Some 5"
    by code_simp
  then obtain ms err where run: "parseLoop [] ?sc = Inr (ms, err)" "ms \<noteq> []"
    "map_option Age (Statistics (ms ! 0)) = Some 5"
    by (auto split: sum.splits)
  note t = non_tcp_xprt_line_is_ignored [of ?b ?x ?b' NewStatistics ?sc ?hdr ?sc1 "[]" ms err]
  from t h1 have skip: "statLoop NewStatistics ?b = statLoop NewStatistics ?b'" by blast
  from t h2 run obtain st where "Statistics (ms ! 0) = Some st"
    "Transport st = zeroTransportCounters"
    by auto
  with run skip show ?thesis by auto
qed

section \<open>Input that follows the layout\<close>

lemma not_device_not_header: "Fields line ! 0 \<noteq> ''device'' \<Longrightarrow> \<not> headerLine line"
  by (simp add: headerLine_def Let_def)

lemma blank_not_header: "Fields line = [] \<Longrightarrow> \<not> headerLine line"
  by (simp add: headerLine_def Let_def)

lemma statLine_Fail:
  "statLine st tokens = Fail p \<Longrightarrow>
   (tokens ! 0 = ''age:'' \<or> tokens ! 0 = ''xprt:'') \<and> length tokens < 2"
  by (auto simp: statLine_def split: if_splits)

lemma opLine_Stop: "(opLine st tokens = Stop) = (tokens = [] \<or> tokens ! 0 = ''device'')"
  by (auto simp: opLine_def split: option.splits)

lemma opLine_Fail: "opLine st tokens = Fail p \<Longrightarrow> Operation st = None"
  by (auto simp: opLine_def split: if_splits option.splits)

lemma Scan_fits_Some:
  assumes "Scan sc = (Some line, sc1)" and "fits sc"
  shows "fits sc1"
  using assms by (auto simp: fits_def Scan_def split: list.splits if_splits)

lemma Scan_fits_None:
  assumes "Scan sc = (None, sc1)" and "fits sc"
  shows "fits sc1" and "upcoming sc1 = []"
proof -
  from assms show f: "fits sc1"
    by (auto simp: fits_def Scan_def tokenTooLong_def split: list.splits if_splits)
  then have "\<not> tooLong sc1" by (simp add: fits_def)
  then show "upcoming sc1 = []" by (rule Scan_None_again(2) [OF assms(1)])
qed

lemma statLoop_conforms:
  assumes "conforms ParsingStatBlock (upcoming scanner)" and "fits scanner"
  shows "\<exists>statistics' scanner'.
           statLoop statistics scanner = Inr (statistics', scanner')
           \<and> failure scanner' = failure scanner \<and> fits scanner'
           \<and> conforms ParsingOperations (upcoming scanner')
           \<and> filter headerLine (upcoming scanner') = filter headerLine (upcoming scanner)"
  using assms
proof (induction scanner arbitrary: statistics rule: Scan_induct)
  case (Scan scanner)
  obtain r sc1 where sc1: "Scan scanner = (r, sc1)" by (cases "Scan scanner")
  show ?case
  proof (cases r)
    case None
    with sc1 have s: "Scan scanner = (None, sc1)" by simp
    from Scan_fits_None [OF s Scan.prems(2)] Scan_None(2,4) [OF s] show ?thesis
      by (simp add: statLoop_None [OF s])
  next
    case (Some l)
    with sc1 have s: "Scan scanner = (Some l, sc1)" by simp
    note pend = Scan_Some(5) [OF s]
    note f1 = Scan_fits_Some [OF s Scan.prems(2)]
    from Scan.prems(1) pend have ne: "Fields l \<noteq> []" and nd: "Fields l ! 0 \<noteq> ''device''"
      by (simp_all add: Let_def)
    from nd have nh: "\<not> headerLine l" by (rule not_device_not_header)
    show ?thesis
    proof (cases "Fields l ! 0 = ''per-op''")
      case True
      with ne have "statLine statistics (Fields l) = Stop" by (simp add: statLine_def)
      moreover from True Scan.prems(1) pend have "conforms ParsingOperations (upcoming sc1)"
        by (simp add: Let_def)
      ultimately show ?thesis using Scan_Some(1) [OF s] f1 nh
        by (simp add: statLoop_Some [OF s] pend)
    next
      case False
      with Scan.prems(1) pend have
        two: "Fields l ! 0 = ''age:'' \<or> Fields l ! 0 = ''xprt:'' \<longrightarrow> 2 \<le> length (Fields l)"
        and rest: "conforms ParsingStatBlock (upcoming sc1)"
        by (simp_all add: Let_def)
      from ne False two obtain st1 where "statLine statistics (Fields l) = Next st1"
        by (cases "statLine statistics (Fields l)")
           (auto simp: statLine_Stop dest: statLine_Fail)
      with Scan.IH [OF s rest f1, of st1] Scan_Some(1) [OF s] nh show ?thesis
        by (simp add: statLoop_Some [OF s] pend)
    qed
  qed
qed

lemma parseOperations_conforms:
  assumes "conforms ParsingOperations (upcoming scanner)" and "fits scanner"
    and "Operation statistics \<noteq> None"
  shows "\<exists>statistics' scanner'.
           parseOperations scanner statistics = Inr (statistics', scanner')
           \<and> failure scanner' = failure scanner \<and> fits scanner'
           \<and> conforms ScanningForHeader (upcoming scanner')
           \<and> filter headerLine (upcoming scanner') = filter headerLine (upcoming scanner)"
  using assms
proof (induction scanner arbitrary: statistics rule: Scan_induct)
  case (Scan scanner)
  obtain r sc1 where sc1: "Scan scanner = (r, sc1)" by (cases "Scan scanner")
  show ?case
  proof (cases r)
    case None
    with sc1 have s: "Scan scanner = (None, sc1)" by simp
    from Scan_fits_None [OF s Scan.prems(2)] Scan_None(2,4) [OF s] show ?thesis
      by (simp add: parseOperations_None [OF s])
  next
    case (Some l)
    with sc1 have s: "Scan scanner = (Some l, sc1)" by simp
    note pend = Scan_Some(5) [OF s]
    note f1 = Scan_fits_Some [OF s Scan.prems(2)]
    show ?thesis
    proof (cases "Fields l = []")
      case True
      then have "opLine statistics (Fields l) = Stop" by (simp add: opLine_def)
      moreover from True Scan.prems(1) pend have "conforms ScanningForHeader (upcoming sc1)"
        by (simp add: Let_def)
      ultimately show ?thesis using Scan_Some(1) [OF s] f1 blank_not_header [OF True]
        by (simp add: parseOperations_Some [OF s] pend)
    next
      case False
      with Scan.prems(1) pend have nd: "Fields l ! 0 \<noteq> ''device''"
        and rest: "conforms ParsingOperations (upcoming sc1)"
        by (simp_all add: Let_def)
      from nd have nh: "\<not> headerLine l" by (rule not_device_not_header)
      from False nd Scan.prems(3) obtain st1 where
        step: "opLine statistics (Fields l) = Next st1"
        by (cases "opLine statistics (Fields l)") (auto simp: opLine_Stop dest: opLine_Fail)
      from opLine_Operation [OF step Scan.prems(3)] have "Operation st1 \<noteq> None" .
      with Scan.IH [OF s rest f1, of st1] Scan_Some(1) [OF s] nh step show ?thesis
        by (simp add: parseOperations_Some [OF s] pend)
    qed
  qed
qed

lemma parseStatistics_conforms:
  assumes "conforms ParsingStatBlock (upcoming scanner)" and "fits scanner"
    and "failure scanner = None"
  shows "\<exists>statistics scanner'.
           parseStatistics scanner = Inr ((Some statistics, None), scanner')
           \<and> failure scanner' = None \<and> fits scanner'
           \<and> conforms ScanningForHeader (upcoming scanner')
           \<and> filter headerLine (upcoming scanner') = filter headerLine (upcoming scanner)"
proof -
  from statLoop_conforms [OF assms(1,2), of NewStatistics] obtain st1 sc1 where
    a: "statLoop NewStatistics scanner = Inr (st1, sc1)" "failure sc1 = failure scanner"
       "fits sc1" "conforms ParsingOperations (upcoming sc1)"
       "filter headerLine (upcoming sc1) = filter headerLine (upcoming scanner)"
    by blast
  have "Operation st1 \<noteq> None"
    using statLoop_Operation [OF a(1)] by (simp add: NewStatistics_def)
  from parseOperations_conforms [OF a(4,3) this] obtain st2 sc2 where
    b: "parseOperations sc1 st1 = Inr (st2, sc2)" "failure sc2 = failure sc1"
       "fits sc2" "conforms ScanningForHeader (upcoming sc2)"
       "filter headerLine (upcoming sc2) = filter headerLine (upcoming sc1)"
    by blast
  from a b assms(3) have "Err sc2 = None" by (simp add: Err_def fits_def)
  with a b assms(3) show ?thesis by (simp add: parseStatistics_def)
qed

lemma parseLoop_conforms:
  assumes "conforms ScanningForHeader (upcoming scanner)" and "fits scanner"
    and "failure scanner = None"
  shows "\<exists>ms. parseLoop nfsMounts scanner = Inr (ms, None)
           \<and> length ms = length nfsMounts + length (filter headerLine (upcoming scanner))"
  using assms
proof (induction "length (pending scanner)" arbitrary: scanner nfsMounts rule: less_induct)
  case less
  obtain r sc1 where sc1: "Scan scanner = (r, sc1)" by (cases "Scan scanner")
  show ?case
  proof (cases r)
    case None
    with sc1 have s: "Scan scanner = (None, sc1)" by simp
    from Scan_fits_None(1) [OF s less.prems(2)] Scan_None(2) [OF s] less.prems(3)
    have "Err sc1 = None" by (simp add: Err_def fits_def)
    then show ?thesis by (simp add: parseLoop_None [OF s] Scan_None(4) [OF s])
  next
    case (Some l)
    with sc1 have s: "Scan scanner = (Some l, sc1)" by simp
    note pend = Scan_Some(5) [OF s]
    note f1 = Scan_fits_Some [OF s less.prems(2)]
    have e1: "failure sc1 = None" using Scan_Some(1) [OF s] less.prems(3) by simp
    have shorter: "length (pending sc1) < length (pending scanner)"
      by (rule Scan_pending [OF s])
    show ?thesis
    proof (cases "headerLine l")
      case False
      with less.prems(1) pend have "conforms ScanningForHeader (upcoming sc1)"
        by simp
      from less.hyps [OF shorter this f1 e1, of nfsMounts] False pend show ?thesis
        by (simp add: parseLoop_skip [OF s False])
    next
      case True
      with less.prems(1) pend have "conforms ParsingStatBlock (upcoming sc1)"
        by simp
      from parseStatistics_conforms [OF this f1 e1] obtain st sc2 where
        ps: "parseStatistics sc1 = Inr ((Some st, None), sc2)" and
        sc2: "failure sc2 = None" "fits sc2" "conforms ScanningForHeader (upcoming sc2)"
          "filter headerLine (upcoming sc2) = filter headerLine (upcoming sc1)"
        by blast
      have "length (pending sc2) < length (pending scanner)"
        using parseStatistics_pending [OF ps] shorter by simp
      from less.hyps [OF this sc2(3,2,1), of "nfsMounts @ [mountRecord l (Some st)]"]
        ps sc2(4) True pend
      show ?thesis
        by (simp add: parseLoop_header [OF s True] mountRecord_def)
    qed
  qed
qed

text \<open>A line of one repeated byte that is no white space is a single token.\<close>

lemma splitFields_replicate:
  "\<not> asciiSpace c \<Longrightarrow>
   splitFields (replicate n c) field =
     (if n = 0 \<and> field = [] then [] else [field @ replicate n c])"
  by (induction n arbitrary: field) (auto simp: replicate_app_Cons_same)

lemma Fields_replicate:
  "\<not> asciiSpace c \<Longrightarrow> (of_char c :: int) < 0x80 \<Longrightarrow> 0 < n \<Longrightarrow>
   Fields (replicate n c) = [replicate n c]"
  by (simp add: Fields_def list_all_iff splitFields_replicate)

text \<open>
  C4, as stated: for every input that follows the layout, \<^verbatim>\<open>Parse\<close> returns as many
  mounts as the input has header lines. This fails when a line has 64 KiB or more: the
  scanner stops there with \<^verbatim>\<open>ErrTooLong\<close> and the loop of \<^verbatim>\<open>Parse\<close> ends. Below, a line
  of 65536 bytes stands between the blocks of two mounts: the input has two header
  lines, and \<^verbatim>\<open>Parse\<close> returns one mount, with the error.
\<close>

theorem long_line_ends_the_scan:
  "(let reader =
      \<lparr>content = [''device srv:/a mounted on /a with fstype nfs statvers=1.1'',
                  ''per-op statistics'', ''READ: 1 2 3 4 5 6 7 8'', '''',
                  replicate 65536 (CHR ''x''),
                  ''device srv:/b mounted on /b with fstype nfs4 statvers=1.1'',
                  ''per-op statistics'', ''WRITE: 1 2 3 4 5 6 7 8'', ''''],
       cleanLines = 9, ending = (None :: unit option)\<rparr>
    in wellFormed (inputLines reader)
       \<and> length (filter headerLine (inputLines reader)) = 2
       \<and> (case Parse reader of
             Inl p \<Rightarrow> False
           | Inr (nfsMounts, err) \<Rightarrow>
               map (\<lambda>m. (Device m, Mountpoint m, Version m)) nfsMounts = [(''srv:/a'', ''/a'', 3)]
               \<and> err = Some ErrTooLong))"
proof -
  let ?hdrA = "''device srv:/a mounted on /a with fstype nfs statvers=1.1''"
  let ?hdrB = "''device srv:/b mounted on /b with fstype nfs4 statvers=1.1''"
  let ?perop = "''per-op statistics''"
  let ?read = "''READ: 1 2 3 4 5 6 7 8''"
  let ?wline = "''WRITE: 1 2 3 4 5 6 7 8''"
  let ?long = "replicate 65536 (CHR ''x'')"
  let ?tail = "[?long, ?hdrB, ?perop, ?wline, '''']"
  let ?c = "?hdrA # ?perop # ?read # '''' # ?tail"
  let ?reader = "\<lparr>content = ?c, cleanLines = 9, ending = (None :: unit option)\<rparr>"
  have hA: "headerLine ?hdrA" and hB: "headerLine ?hdrB" by code_simp+
  have fP: "Fields ?perop = [''per-op'', ''statistics'']" by code_simp
  have fR: "Fields ?read = [''READ:'', ''1'', ''2'', ''3'', ''4'', ''5'', ''6'', ''7'', ''8'']"
    by code_simp
  have fW: "Fields ?wline = [''WRITE:'', ''1'', ''2'', ''3'', ''4'', ''5'', ''6'', ''7'', ''8'']"
    by code_simp
  have fE: "Fields '''' = []" by code_simp
  have fL: "Fields ?long = [?long]"
    by (rule Fields_replicate) (simp_all add: asciiSpace_def)
  have nP: "\<not> headerLine ?perop" and nR: "\<not> headerLine ?read" and nW: "\<not> headerLine ?wline"
    and nE: "\<not> headerLine ''''" and nL: "\<not> headerLine ?long"
    by (simp_all add: headerLine_def fP fR fW fE fL)
  have lines: "inputLines ?reader = ?c"
    by (simp add: inputLines_def dropCR_def)
  have wf: "wellFormed (inputLines ?reader)"
    unfolding lines by (simp add: wellFormed_def hA hB nL fP fR fW fE)
  have count: "length (filter headerLine (inputLines ?reader)) = 2"
    unfolding lines by (simp add: hA hB nP nR nW nE nL)
  let ?sc0 = "NewScanner ?reader"
  let ?sc1 = "\<lparr>pending = ?perop # ?read # '''' # ?tail, clean = 8,
               failure = (None :: unit option), ended = False, tooLong = False\<rparr>"
  let ?sc2 = "\<lparr>pending = ?read # '''' # ?tail, clean = 7,
               failure = (None :: unit option), ended = False, tooLong = False\<rparr>"
  let ?sc3 = "\<lparr>pending = '''' # ?tail, clean = 6,
               failure = (None :: unit option), ended = False, tooLong = False\<rparr>"
  let ?sc4 = "\<lparr>pending = ?tail, clean = 5,
               failure = (None :: unit option), ended = False, tooLong = False\<rparr>"
  let ?sc5 = "\<lparr>pending = [take (nat MaxScanTokenSize) ?long], clean = 5,
               failure = (None :: unit option), ended = True, tooLong = True\<rparr>"
  have scan0: "Scan ?sc0 = (Some ?hdrA, ?sc1)"
    by (simp add: Scan_def NewScanner_def tokenTooLong_def MaxScanTokenSize_def dropCR_def)
  have scan1: "Scan ?sc1 = (Some ?perop, ?sc2)"
    by (simp add: Scan_def tokenTooLong_def MaxScanTokenSize_def dropCR_def)
  have scan2: "Scan ?sc2 = (Some ?read, ?sc3)"
    by (simp add: Scan_def tokenTooLong_def MaxScanTokenSize_def dropCR_def)
  have scan3: "Scan ?sc3 = (Some '''', ?sc4)"
    by (simp add: Scan_def tokenTooLong_def MaxScanTokenSize_def dropCR_def)
  have scan4: "Scan ?sc4 = (None, ?sc5)"
    by (simp add: Scan_def tokenTooLong_def MaxScanTokenSize_def)
  have stat: "statLoop NewStatistics ?sc1 = Inr (NewStatistics, ?sc2)"
    by (simp add: statLoop_Some [OF scan1] statLine_def fP)
  obtain st where op2: "opLine NewStatistics (Fields ?read) = Next st"
    by (simp add: opLine_def fR NewStatistics_def)
  have op3: "opLine st (Fields '''') = Stop"
    by (simp add: opLine_def fE)
  have ops: "parseOperations ?sc2 NewStatistics = Inr (st, ?sc4)"
    by (simp add: parseOperations_Some [OF scan2] op2 parseOperations_Some [OF scan3] op3)
  have block: "parseStatistics ?sc1 = Inr ((Some st, None), ?sc4)"
    by (simp add: parseStatistics_def stat ops Err_def)
  have tokens: "Fields ?hdrA =
      [''device'', ''srv:/a'', ''mounted'', ''on'', ''/a'', ''with'', ''fstype'', ''nfs'',
       ''statvers=1.1'']"
    by code_simp
  have "Parse ?reader =
      Inr ([\<lparr>Device = ''srv:/a'', Mountpoint = ''/a'', Statistics = Some st, Version = 3\<rparr>],
           Some ErrTooLong)"
    by (simp add: Parse_def parseLoop_header [OF scan0 hA] block parseLoop_None [OF scan4]
          Err_def tokens)
  with wf count show ?thesis by (simp add: Let_def)
qed

text \<open>
  C4, amended. For input that follows the \<^verbatim>\<open>statvers=1.1\<close> layout, has no line of
  \<^verbatim>\<open>MaxScanTokenSize\<close> bytes (64 KiB) or more and ends without a read error, \<^verbatim>\<open>Parse\<close>
  returns, with no error, as many mounts as the input has header lines.
\<close>

theorem mount_count_on_well_formed_input:
  assumes "wellFormed (inputLines reader)"
    and "\<forall>line\<in>set (content reader). int (length line) < MaxScanTokenSize"
    and "ending reader = None"
  shows "\<exists>nfsMounts. Parse reader = Inr (nfsMounts, None)
           \<and> length nfsMounts = length (filter headerLine (inputLines reader))"
proof -
  let ?scanner = "NewScanner reader"
  have fits: "fits ?scanner" and eof: "failure ?scanner = None"
    using assms(2,3) by (simp_all add: NewScanner_def fits_def)
  have lines: "upcoming ?scanner = inputLines reader"
    using upcoming_short [of ?scanner] assms(2) by (simp add: NewScanner_def inputLines_def)
  from assms(1) lines have "conforms ScanningForHeader (upcoming ?scanner)"
    by (simp add: wellFormed_def)
  from parseLoop_conforms [OF this fits eof, of "[]"] lines show ?thesis
    by (simp add: Parse_def)
qed

theorem mount_count_on_well_formed_input_witness:
  "wellFormed
     (inputLines
        \<lparr>content =
           [''device /dev/sda1 mounted on / with fstype ext4'',
            ''device srv:/a mounted on /a with fstype nfs statvers=1.1'',
            ''opts: rw,vers=3'', ''age: 100'', ''bytes: 1 2 3 4 5 6 7 8'',
            ''per-op statistics'', ''READ: 1 2 3 4 5 6 7 8'', '''',
            ''device srv:/b mounted on /b with fstype nfs4 statvers=1.1'',
            ''age: 7'', ''per-op statistics'', ''WRITE: 1 2 3 4 5 6 7 8'', ''''],
         cleanLines = 13, ending = (None :: unit option)\<rparr>)
   \<and> (\<exists>nfsMounts.
        Parse \<lparr>content =
                 [''device /dev/sda1 mounted on / with fstype ext4'',
                  ''device srv:/a mounted on /a with fstype nfs statvers=1.1'',
                  ''opts: rw,vers=3'', ''age: 100'', ''bytes: 1 2 3 4 5 6 7 8'',
                  ''per-op statistics'', ''READ: 1 2 3 4 5 6 7 8'', '''',
                  ''device srv:/b mounted on /b with fstype nfs4 statvers=1.1'',
                  ''age: 7'', ''per-op statistics'', ''WRITE: 1 2 3 4 5 6 7 8'', ''''],
               cleanLines = 13, ending = (None :: unit option)\<rparr> = Inr (nfsMounts, None)
        \<and> length nfsMounts = 2)"
proof -
  let ?c = "[''device /dev/sda1 mounted on / with fstype ext4'',
      ''device srv:/a mounted on /a with fstype nfs statvers=1.1'',
      ''opts: rw,vers=3'', ''age: 100'', ''bytes: 1 2 3 4 5 6 7 8'',
      ''per-op statistics'', ''READ: 1 2 3 4 5 6 7 8'', '''',
      ''device srv:/b mounted on /b with fstype nfs4 statvers=1.1'',
      ''age: 7'', ''per-op statistics'', ''WRITE: 1 2 3 4 5 6 7 8'', '''']"
  let ?r = "\<lparr>content = ?c, cleanLines = 13, ending = (None :: unit option)\<rparr>"
  have wf: "wellFormed (inputLines ?r)" by code_simp
  have short: "\<forall>line\<in>set (content ?r). int (length line) < MaxScanTokenSize"
    by (simp add: MaxScanTokenSize_def)
  have eof: "ending ?r = None" by simp
  have n: "length (filter headerLine (inputLines ?r)) = 2" by code_simp
  from mount_count_on_well_formed_input [OF wf short eof] wf n show ?thesis by simp
qed

section \<open>Read errors\<close>

text \<open>The loops do not look at how the reader ends.\<close>

lemma statLoop_failure:
  "statLoop st (sc\<lparr>failure := f\<rparr>) =
     (case statLoop st sc of Inl p \<Rightarrow> Inl p | Inr (st', sc') \<Rightarrow> Inr (st', sc'\<lparr>failure := f\<rparr>))"
proof (induction sc arbitrary: st rule: Scan_induct)
  case (Scan sc)
  obtain r sc1 where sc1: "Scan sc = (r, sc1)" by (cases "Scan sc")
  show ?case
  proof (cases r)
    case None
    with sc1 have s: "Scan sc = (None, sc1)" by simp
    show ?thesis
      by (simp add: statLoop_None [OF s] statLoop_None [OF Scan_failure_None [OF s]])
  next
    case (Some l)
    with sc1 have s: "Scan sc = (Some l, sc1)" by simp
    show ?thesis
      using Scan.IH [OF s]
      by (simp add: statLoop_Some [OF s] statLoop_Some [OF Scan_failure_Some [OF s]]
               split: lineStep.splits)
  qed
qed

lemma parseOperations_failure:
  "parseOperations (sc\<lparr>failure := f\<rparr>) st =
     (case parseOperations sc st of Inl p \<Rightarrow> Inl p
      | Inr (st', sc') \<Rightarrow> Inr (st', sc'\<lparr>failure := f\<rparr>))"
proof (induction sc arbitrary: st rule: Scan_induct)
  case (Scan sc)
  obtain r sc1 where sc1: "Scan sc = (r, sc1)" by (cases "Scan sc")
  show ?case
  proof (cases r)
    case None
    with sc1 have s: "Scan sc = (None, sc1)" by simp
    show ?thesis
      by (simp add: parseOperations_None [OF s]
                    parseOperations_None [OF Scan_failure_None [OF s]])
  next
    case (Some l)
    with sc1 have s: "Scan sc = (Some l, sc1)" by simp
    show ?thesis
      using Scan.IH [OF s]
      by (simp add: parseOperations_Some [OF s]
                    parseOperations_Some [OF Scan_failure_Some [OF s]]
               split: lineStep.splits)
  qed
qed

text \<open>Where the scanner stands after a loop, against the phases of the lines read cleanly.\<close>

lemma Scan_clean:
  assumes "Scan sc = (Some l, sc1)" "\<not> ended sc1"
  shows "\<not> ended sc" and "take (clean sc) (upcoming sc) = l # take (clean sc1) (upcoming sc1)"
    and "drop (clean sc) (upcoming sc) = drop (clean sc1) (upcoming sc1)"
proof -
  from assms Scan_Some(4) [OF assms(1)] show "\<not> ended sc" by simp
  from assms Scan_Some(4) [OF assms(1)] obtain k where k: "clean sc = Suc k"
    by (cases "clean sc") auto
  with Scan_Some(5,3) [OF assms(1)]
  show "take (clean sc) (upcoming sc) = l # take (clean sc1) (upcoming sc1)"
    and "drop (clean sc) (upcoming sc) = drop (clean sc1) (upcoming sc1)"
    by simp_all
qed

lemma Scan_dirty:
  assumes "Scan sc = (Some l, sc1)" "ended sc1" "\<not> ended sc"
  shows "take (clean sc) (upcoming sc) = []"
  using assms Scan_Some(4) [OF assms(1)] by simp

lemma statLoop_clean:
  "statLoop st sc = Inr (st', sc') \<Longrightarrow> \<not> ended sc' \<Longrightarrow>
   \<not> ended sc
   \<and> phaseAfter ParsingStatBlock (take (clean sc) (upcoming sc))
       = phaseAfter ParsingOperations (take (clean sc') (upcoming sc'))
   \<and> drop (clean sc) (upcoming sc) = drop (clean sc') (upcoming sc')"
proof (induction rule: statLoop_runs)
  case (End st sc sc1)
  with Scan_None(1) [OF End(1)] show ?case by simp
next
  case (Stop st sc line sc1)
  from Scan_clean [OF Stop(1) Stop(3)] Stop(2) show ?case
    by (simp add: statLine_Stop)
next
  case (Next st sc line sc1 st1 st' sc')
  from Next.IH [OF Next.prems] have sc1: "\<not> ended sc1" by simp
  from Scan_clean [OF Next(1) sc1] Next.IH [OF Next.prems] statLine_Next_inBlock [OF Next(2)]
  show ?case by simp
qed

lemma statLoop_dirty:
  "statLoop st sc = Inr (st', sc') \<Longrightarrow> ended sc' \<Longrightarrow> \<not> ended sc \<Longrightarrow>
   phaseAfter ParsingStatBlock (take (clean sc) (upcoming sc)) = ParsingStatBlock"
proof (induction rule: statLoop_runs)
  case (End st sc sc1)
  then show ?case by (simp add: Scan_None(4))
next
  case (Stop st sc line sc1)
  from Scan_dirty [OF Stop(1) Stop(3) Stop(4)] show ?case by (simp only: phaseAfter.simps)
next
  case (Next st sc line sc1 st1 st' sc')
  show ?case
  proof (cases "ended sc1")
    case True
    from Scan_dirty [OF Next(1) True Next.prems(2)] show ?thesis by (simp only: phaseAfter.simps)
  next
    case False
    from Scan_clean [OF Next(1) False] Next.IH [OF Next.prems(1) False]
      statLine_Next_inBlock [OF Next(2)]
    show ?thesis by simp
  qed
qed

lemma opLine_Next_inTable:
  "opLine st tokens = Next st' \<Longrightarrow> tokens \<noteq> [] \<and> tokens ! 0 \<noteq> ''device''"
  by (auto simp: opLine_def split: if_splits)

lemma parseOperations_clean:
  "parseOperations sc st = Inr (st', sc') \<Longrightarrow> \<not> ended sc' \<Longrightarrow>
   \<not> ended sc
   \<and> phaseAfter ParsingOperations (take (clean sc) (upcoming sc))
       = phaseAfter ScanningForHeader (take (clean sc') (upcoming sc'))
   \<and> drop (clean sc) (upcoming sc) = drop (clean sc') (upcoming sc')"
proof (induction rule: parseOperations_runs)
  case (End st sc sc1)
  with Scan_None(1) [OF End(1)] show ?case by simp
next
  case (Stop st sc line sc1)
  from Scan_clean [OF Stop(1) Stop(3)] Stop(2) show ?case
    by (simp add: opLine_Stop)
next
  case (Next st sc line sc1 st1 st' sc')
  from Next.IH [OF Next.prems] have sc1: "\<not> ended sc1" by simp
  from Scan_clean [OF Next(1) sc1] Next.IH [OF Next.prems] opLine_Next_inTable [OF Next(2)]
  show ?case by simp
qed

lemma parseOperations_dirty:
  "parseOperations sc st = Inr (st', sc') \<Longrightarrow> ended sc' \<Longrightarrow> \<not> ended sc \<Longrightarrow>
   phaseAfter ParsingOperations (take (clean sc) (upcoming sc)) = ParsingOperations"
proof (induction rule: parseOperations_runs)
  case (End st sc sc1)
  then show ?case by (simp add: Scan_None(4))
next
  case (Stop st sc line sc1)
  from Scan_dirty [OF Stop(1) Stop(3) Stop(4)] show ?case by (simp only: phaseAfter.simps)
next
  case (Next st sc line sc1 st1 st' sc')
  show ?case
  proof (cases "ended sc1")
    case True
    from Scan_dirty [OF Next(1) True Next.prems(2)] show ?thesis by (simp only: phaseAfter.simps)
  next
    case False
    from Scan_clean [OF Next(1) False] Next.IH [OF Next.prems(1) False]
      opLine_Next_inTable [OF Next(2)]
    show ?thesis by simp
  qed
qed

lemma statLoop_failure_same:
  "statLoop st sc = Inr (st', sc') \<Longrightarrow> failure sc' = failure sc"
  by (induction rule: statLoop_runs) (auto simp: Scan_Some(1) Scan_None(2))

lemma parseOperations_failure_same:
  "parseOperations sc st = Inr (st', sc') \<Longrightarrow> failure sc' = failure sc"
  by (induction rule: parseOperations_runs) (auto simp: Scan_Some(1) Scan_None(2))

lemma quiet_skip:
  assumes "Scan sc = (Some l, sc1)" "\<not> headerLine l"
  shows "quiet sc = quiet sc1"
proof (cases "ended sc1")
  case False
  from Scan_clean [OF assms(1) False] False assms(2) show ?thesis
    by (simp add: quiet_def errorMetOutsideBlocks_def)
next
  case True
  show ?thesis
  proof (cases "ended sc")
    case True
    with \<open>ended sc1\<close> Scan_Some(5) [OF assms(1)] assms(2) show ?thesis
      by (simp add: quiet_def)
  next
    case False
    with True Scan_Some(4) [OF assms(1)] have "clean sc = 0" by simp
    with True False Scan_Some(5) [OF assms(1)] assms(2) show ?thesis
      by (simp add: quiet_def errorMetOutsideBlocks_def)
  qed
qed

lemma quiet_header:
  assumes "Scan sc = (Some l, sc1)" "headerLine l" "quiet sc"
  shows "\<not> ended sc1"
    and "phaseAfter ParsingStatBlock (take (clean sc1) (upcoming sc1)) = ScanningForHeader"
    and "\<forall>line\<in>set (drop (clean sc1) (upcoming sc1)). \<not> headerLine line"
proof -
  have pend: "upcoming sc = l # upcoming sc1" by (rule Scan_Some(5) [OF assms(1)])
  from assms(2,3) pend have ne: "\<not> ended sc" by (auto simp: quiet_def)
  have c: "clean sc \<noteq> 0"
  proof
    assume "clean sc = 0"
    with assms(2,3) pend ne show False
      by (simp add: quiet_def errorMetOutsideBlocks_def)
  qed
  with ne Scan_Some(4) [OF assms(1)] show e1: "\<not> ended sc1" by simp
  from Scan_clean [OF assms(1) e1] assms(2,3) ne
  show "phaseAfter ParsingStatBlock (take (clean sc1) (upcoming sc1)) = ScanningForHeader"
    and "\<forall>line\<in>set (drop (clean sc1) (upcoming sc1)). \<not> headerLine line"
    by (simp_all add: quiet_def errorMetOutsideBlocks_def)
qed

lemma parseLoop_read_error:
  assumes "failure scanner = Some e"
    and "parseLoop nfsMounts (scanner\<lparr>failure := None\<rparr>) = Inr (ms, None)"
  shows "parseLoop nfsMounts scanner
           = Inr (if quiet scanner then ms else [], Some (ReaderError e))"
  using assms
proof (induction "length (pending scanner)" arbitrary: scanner nfsMounts rule: less_induct)
  case less
  obtain r sc1 where sc1: "Scan scanner = (r, sc1)" by (cases "Scan scanner")
  show ?case
  proof (cases r)
    case None
    with sc1 have s: "Scan scanner = (None, sc1)" by simp
    from less.prems(2) have ms: "ms = nfsMounts" and "Err (sc1\<lparr>failure := None\<rparr>) = None"
      by (simp_all add: parseLoop_None [OF Scan_failure_None [OF s]])
    then have "\<not> tooLong sc1" by (auto simp: Err_def split: if_splits)
    with Scan_None(1,2) [OF s] less.prems(1) have "Err sc1 = Some (ReaderError e)"
      by (simp add: Err_def)
    moreover have "quiet scanner"
      by (simp add: quiet_def errorMetOutsideBlocks_def Scan_None(4) [OF s])
    ultimately show ?thesis using ms by (simp add: parseLoop_None [OF s])
  next
    case (Some l)
    with sc1 have s: "Scan scanner = (Some l, sc1)" by simp
    note s' = Scan_failure_Some [OF s, of None]
    have f1: "failure sc1 = failure scanner" by (rule Scan_Some(1) [OF s])
    have shorter: "length (pending sc1) < length (pending scanner)"
      by (rule Scan_pending [OF s])
    show ?thesis
    proof (cases "headerLine l")
      case False
      from less.prems(2) have "parseLoop nfsMounts (sc1\<lparr>failure := None\<rparr>) = Inr (ms, None)"
        by (simp add: parseLoop_skip [OF s' False])
      from less.hyps [OF shorter _ this] f1 less.prems(1)
      have "parseLoop nfsMounts sc1 = Inr (if quiet sc1 then ms else [], Some (ReaderError e))"
        by simp
      then show ?thesis
        by (simp add: parseLoop_skip [OF s False] quiet_skip [OF s False])
    next
      case True
      note eof = less.prems(2) [unfolded parseLoop_header [OF s' True]]
      obtain stA scA where a: "statLoop NewStatistics sc1 = Inr (stA, scA)"
        using eof
        by (cases "statLoop NewStatistics sc1")
           (auto simp: parseStatistics_def statLoop_failure)
      obtain st2 sc2 where b: "parseOperations scA stA = Inr (st2, sc2)"
        using eof a
        by (cases "parseOperations scA stA")
           (auto simp: parseStatistics_def statLoop_failure parseOperations_failure)
      have short: "\<not> tooLong sc2"
      proof
        assume "tooLong sc2"
        with a b have "parseStatistics (sc1\<lparr>failure := None\<rparr>)
                  = Inr ((None, Some ErrTooLong), sc2\<lparr>failure := None\<rparr>)"
          by (simp add: parseStatistics_def statLoop_failure parseOperations_failure Err_def)
        with eof show False by simp
      qed
      have ps0: "parseStatistics (sc1\<lparr>failure := None\<rparr>)
                  = Inr ((Some st2, None), sc2\<lparr>failure := None\<rparr>)"
        using a b short
        by (simp add: parseStatistics_def statLoop_failure parseOperations_failure Err_def)
      with eof have next0:
        "parseLoop (nfsMounts @ [mountRecord l (Some st2)]) (sc2\<lparr>failure := None\<rparr>)
           = Inr (ms, None)"
        by (simp add: mountRecord_def)
      have f2: "failure sc2 = Some e"
        using statLoop_failure_same [OF a] parseOperations_failure_same [OF b] f1
          less.prems(1) by simp
      show ?thesis
      proof (cases "ended sc2")
        case True
        then have "parseStatistics sc1 = Inr ((None, Some (ReaderError e)), sc2)"
          using a b f2 short by (simp add: parseStatistics_def Err_def)
        then have res: "parseLoop nfsMounts scanner = Inr ([], Some (ReaderError e))"
          by (simp add: parseLoop_header [OF s \<open>headerLine l\<close>])
        have "\<not> quiet scanner"
        proof
          assume q: "quiet scanner"
          note h = quiet_header [OF s \<open>headerLine l\<close> q]
          show False
          proof (cases "ended scA")
            case True
            from statLoop_dirty [OF a True h(1)] h(2) show False by simp
          next
            case False
            from statLoop_clean [OF a False] parseOperations_dirty [OF b True False] h(2)
            show False by simp
          qed
        qed
        with res show ?thesis by simp
      next
        case False
        then have "parseStatistics sc1 = Inr ((Some st2, None), sc2)"
          using a b f2 short by (simp add: parseStatistics_def Err_def)
        then have step: "parseLoop nfsMounts scanner
            = parseLoop (nfsMounts @ [mountRecord l (Some st2)]) sc2"
          by (simp add: parseLoop_header [OF s \<open>headerLine l\<close>] mountRecord_def)
        have "length (pending sc2) \<le> length (pending sc1)"
          using statLoop_pending [OF a] parseOperations_pending [OF b] by simp
        with shorter have "length (pending sc2) < length (pending scanner)" by simp
        from less.hyps [OF this f2 next0]
        have r: "parseLoop (nfsMounts @ [mountRecord l (Some st2)]) sc2
                  = Inr (if quiet sc2 then ms else [], Some (ReaderError e))" .
        note pB = parseOperations_clean [OF b False]
        then have eA: "\<not> ended scA" by simp
        note pA = statLoop_clean [OF a eA]
        then have e1: "\<not> ended sc1" by simp
        note p0 = Scan_clean [OF s e1]
        have "quiet scanner = quiet sc2"
          using pA pB p0 False \<open>headerLine l\<close>
          by (simp add: quiet_def errorMetOutsideBlocks_def)
        with step r show ?thesis by simp
      qed
    qed
  qed
qed

text \<open>
  C2, as stated: after a read error \<^verbatim>\<open>Parse\<close> returns the mounts assembled before it
  together with the error. This fails when the error is met inside the block of a later
  mount: \<^verbatim>\<open>parseStatistics\<close> then returns \<^verbatim>\<open>(nil, err)\<close> and \<^verbatim>\<open>Parse\<close> returns
  \<^verbatim>\<open>(nil, err)\<close>. Below, the first mount is complete after four lines (a read error
  there returns it), and a read error two lines later returns no mount at all.
\<close>

theorem records_lost_on_read_error:
  "(case Parse \<lparr>content = [''device srv:/a mounted on /a with fstype nfs statvers=1.1'',
                            ''per-op statistics'', ''READ: 1 2 3 4 5 6 7 8'', ''''],
                cleanLines = 4, ending = Some ''read error''\<rparr> of
      Inl p \<Rightarrow> False
    | Inr (nfsMounts, err) \<Rightarrow>
        length nfsMounts = 1 \<and> err = Some (ReaderError ''read error''))
   \<and> Parse \<lparr>content = [''device srv:/a mounted on /a with fstype nfs statvers=1.1'',
                        ''per-op statistics'', ''READ: 1 2 3 4 5 6 7 8'', '''',
                        ''device srv:/b mounted on /b with fstype nfs4 statvers=1.1'',
                        ''age: 7''],
            cleanLines = 6, ending = Some ''read error''\<rparr>
     = Inr ([], Some (ReaderError ''read error''))"
  by code_simp

text \<open>
  C2, amended. Take an input that ends in a read error, and whose lines alone make
  \<^verbatim>\<open>Parse\<close> return \<open>nfsMounts\<close> and no error. Then \<^verbatim>\<open>Parse\<close> returns the error, and
  with it \<open>nfsMounts\<close> when the scanner meets the error outside the blocks (the loop of
  \<^verbatim>\<open>Parse\<close> is scanning for a header, and no header line is delivered after), and nil
  otherwise. The lines are those the scanner delivers.
\<close>

theorem read_error_results:
  assumes "ending reader = Some e"
    and "Parse (reader\<lparr>ending := None\<rparr>) = Inr (nfsMounts, None)"
  shows "Parse reader =
           Inr (if errorMetOutsideBlocks (cleanLines reader) (upcoming (NewScanner reader))
                then nfsMounts else [], Some (ReaderError e))"
proof -
  have "NewScanner (reader\<lparr>ending := None\<rparr>) = (NewScanner reader)\<lparr>failure := None\<rparr>"
    by (simp add: NewScanner_def)
  with assms(2) have "parseLoop [] ((NewScanner reader)\<lparr>failure := None\<rparr>) = Inr (nfsMounts, None)"
    by (simp add: Parse_def)
  from parseLoop_read_error [OF _ this, of e] assms(1) show ?thesis
    by (simp add: Parse_def NewScanner_def quiet_def)
qed

theorem read_error_results_witness:
  "\<exists>nfsMounts.
     Parse \<lparr>content = [''device srv:/a mounted on /a with fstype nfs statvers=1.1'',
                        ''per-op statistics'', ''READ: 1 2 3 4 5 6 7 8'', ''''],
            cleanLines = 4, ending = (None :: string option)\<rparr> = Inr (nfsMounts, None)
     \<and> length nfsMounts = 1
     \<and> Parse \<lparr>content = [''device srv:/a mounted on /a with fstype nfs statvers=1.1'',
                          ''per-op statistics'', ''READ: 1 2 3 4 5 6 7 8'', ''''],
              cleanLines = 4, ending = Some ''read error''\<rparr>
         = Inr (nfsMounts, Some (ReaderError ''read error''))
     \<and> Parse \<lparr>content = [''device srv:/a mounted on /a with fstype nfs statvers=1.1'',
                          ''per-op statistics'', ''READ: 1 2 3 4 5 6 7 8'', ''''],
              cleanLines = 3, ending = Some ''read error''\<rparr>
         = Inr ([], Some (ReaderError ''read error''))"
proof -
  let ?c = "[''device srv:/a mounted on /a with fstype nfs statvers=1.1'',
             ''per-op statistics'', ''READ: 1 2 3 4 5 6 7 8'', '''']"
  let ?r = "\<lparr>content = ?c, cleanLines = 4, ending = Some ''read error''\<rparr>"
  let ?early = "\<lparr>content = ?c, cleanLines = 3, ending = Some ''read error''\<rparr>"
  let ?eof = "\<lparr>content = ?c, cleanLines = 4, ending = (None :: string option)\<rparr>"
  have "case Parse ?eof of Inl p \<Rightarrow> False
        | Inr (ms, err) \<Rightarrow> length ms = 1 \<and> err = None"
    by code_simp
  then obtain ms where run: "Parse ?eof = Inr (ms, None)" "length ms = 1"
    by (auto split: sum.splits)
  have "Parse (?early\<lparr>ending := None\<rparr>) = Parse ?eof" by code_simp
  with run(1) have run3: "Parse (?early\<lparr>ending := None\<rparr>) = Inr (ms, None)" by simp
  have out: "errorMetOutsideBlocks (cleanLines ?r) (upcoming (NewScanner ?r))" by code_simp
  have inside: "\<not> errorMetOutsideBlocks (cleanLines ?early) (upcoming (NewScanner ?early))"
    by code_simp
  have e: "ending ?r = Some ''read error''"
    by simp
  have e3: "ending ?early = Some ''read error''"
    by simp
  have run0: "Parse (?r\<lparr>ending := None\<rparr>) = Inr (ms, None)"
    using run(1) by simp
  from read_error_results [OF e run0] out
  have a: "Parse ?r = Inr (ms, Some (ReaderError ''read error''))" by simp
  from read_error_results [OF e3 run3] inside
  have b: "Parse ?early = Inr ([], Some (ReaderError ''read error''))" by simp
  from run a b show ?thesis by blast
qed

section \<open>Claims settled by evaluation\<close>

text \<open>
  C1. A valid \<^verbatim>\<open>statvers=1.1\<close> header that follows another mount's table of operations
  with no blank line between them should give a mount record of its own.
  \<^verbatim>\<open>parseOperations\<close> stops at the \<^verbatim>\<open>device\<close> line, but \<^verbatim>\<open>Scan\<close> has already taken it from
  the scanner, and the loop of \<^verbatim>\<open>Parse\<close> goes on with the line after it: of the two
  mounts below only the first one is returned.
\<close>

theorem header_after_operations_is_lost:
  "(case Parse
           \<lparr>content = [''device srv:/a mounted on /a with fstype nfs statvers=1.1'',
                        ''per-op statistics'',
                        ''READ: 1 2 3 4 5 6 7 8'',
                        ''device srv:/b mounted on /b with fstype nfs4 statvers=1.1'',
                        ''per-op statistics'',
                        ''WRITE: 1 2 3 4 5 6 7 8''],
             cleanLines = 6, ending = (None :: unit option)\<rparr> of
      Inl p \<Rightarrow> False
    | Inr (nfsMounts, err) \<Rightarrow>
        err = None
        \<and> map (\<lambda>m. (Device m, Mountpoint m, Version m)) nfsMounts = [(''srv:/a'', ''/a'', 3)])"
  by code_simp

text \<open>
  C3. No malformed line should make the parser fail. In a statistics block a line that
  is the single token \<^verbatim>\<open>age:\<close>, or the single token \<^verbatim>\<open>xprt:\<close>, makes \<^verbatim>\<open>parseStatistics\<close>
  read \<^verbatim>\<open>fields[1]\<close> of a one-element slice: \<^verbatim>\<open>Parse\<close> panics.
\<close>

theorem bare_age_or_xprt_line_panics:
  "Parse \<lparr>content = [''device srv:/a mounted on /a with fstype nfs statvers=1.1'',
                      ''age:''],
          cleanLines = 2, ending = (None :: unit option)\<rparr> = Inl IndexOutOfRange
   \<and> Parse \<lparr>content = [''device srv:/a mounted on /a with fstype nfs statvers=1.1'',
                        ''xprt:''],
            cleanLines = 2, ending = (None :: unit option)\<rparr> = Inl IndexOutOfRange"
  by code_simp

end
